theory Spec2Isabelle
  imports Main "HOL-Library.Sublist" "HOL-Library.AList"
begin

section \<open>Text: Python strings and the character classes of the \<open>re\<close> module\<close>

text \<open>
  A Python \<open>str\<close> is a sequence of code points. It is modelled as a \<^typ>\<open>string\<close>, each
  \<^typ>\<open>char\<close> standing for the code point of the same number, so the model covers the
  texts over U+0000..U+00FF. On that range the classes below are the ones Python uses:
  \<open>str.strip()\<close> and the pattern \<open>\s\<close> both test \<open>str.isspace\<close>, \<open>\w\<close> tests
  \<open>str.isalnum\<close> or the underscore, and under \<open>re.IGNORECASE\<close> an ASCII letter of a
  pattern matches exactly its two ASCII cases.
\<close>

definition is_space :: "char \<Rightarrow> bool" where
  "is_space c =
     (let n = (of_char c :: nat)
      in (9 \<le> n \<and> n \<le> 13) \<or> (28 \<le> n \<and> n \<le> 32) \<or> n = 133 \<or> n = 160)"

definition is_word :: "char \<Rightarrow> bool" where
  "is_word c =
     (let n = (of_char c :: nat)
      in (48 \<le> n \<and> n \<le> 57) \<or> (65 \<le> n \<and> n \<le> 90) \<or> n = 95 \<or> (97 \<le> n \<and> n \<le> 122)
         \<or> n = 170 \<or> n = 178 \<or> n = 179 \<or> n = 181 \<or> n = 185 \<or> n = 186
         \<or> (188 \<le> n \<and> n \<le> 190) \<or> (192 \<le> n \<and> n \<le> 214)
         \<or> (216 \<le> n \<and> n \<le> 246) \<or> (248 \<le> n \<and> n \<le> 255))"

definition ascii_lower :: "char \<Rightarrow> char" where
  "ascii_lower c =
     (let n = (of_char c :: nat) in if 65 \<le> n \<and> n \<le> 90 then char_of (n + 32) else c)"

definition ascii_upper :: "char \<Rightarrow> char" where
  "ascii_upper c =
     (let n = (of_char c :: nat) in if 97 \<le> n \<and> n \<le> 122 then char_of (n - 32) else c)"

text \<open>\<open>ci_prefix w s\<close>: the literal \<open>w\<close> matches at the start of \<open>s\<close> under \<open>re.IGNORECASE\<close>.\<close>

fun ci_prefix :: "string \<Rightarrow> string \<Rightarrow> bool" where
  "ci_prefix [] s = True"
| "ci_prefix (p # ps) [] = False"
| "ci_prefix (p # ps) (c # cs) = (ascii_lower p = ascii_lower c \<and> ci_prefix ps cs)"

text \<open>\<open>contains p s\<close>: Python's \<open>p in s\<close>.\<close>

fun contains :: "string \<Rightarrow> string \<Rightarrow> bool" where
  "contains p [] = (p = [])"
| "contains p (c # cs) = (prefix p (c # cs) \<or> contains p cs)"

section \<open>The query preprocessor (\<open>preprocess_user_query\<close>)\<close>

text \<open>\<open>query.strip()\<close>\<close>

definition strip :: "string \<Rightarrow> string" where
  "strip s = rev (dropWhile is_space (rev (dropWhile is_space s)))"

text \<open>
  \<open>re.sub(r'\s+', ' ', query)\<close>: every maximal run of whitespace becomes one space.
\<close>

function collapse_ws :: "string \<Rightarrow> string" where
  "collapse_ws [] = []"
| "collapse_ws (c # cs) =
     (if is_space c then CHR '' '' # collapse_ws (dropWhile is_space cs)
      else c # collapse_ws cs)"
  by pat_completeness auto
termination
  by (relation "measure length") (auto simp: length_dropWhile_le le_imp_less_Suc)

text \<open>
  \<open>re.sub(r'--.*$', '', query, flags=re.MULTILINE)\<close>: at the leftmost \<open>--\<close> the greedy
  \<open>.*\<close> takes every character up to the next newline (the dot does not match a newline),
  where \<open>$\<close> holds; the match is deleted and the scan goes on at that newline.
\<close>

function strip_line_comments :: "string \<Rightarrow> string" where
  "strip_line_comments [] = []"
| "strip_line_comments (c # cs) =
     (if prefix ''--'' (c # cs)
      then strip_line_comments (dropWhile (\<lambda>x. x \<noteq> CHR 0x0A) (tl cs))
      else c # strip_line_comments cs)"
  by pat_completeness auto
termination
proof (relation "measure length")
  show "wf (measure length)" by simp
next
  fix c :: char and cs :: string
  assume "prefix ''--'' (c # cs)"
  have "length (dropWhile (\<lambda>x. x \<noteq> CHR 0x0A) (tl cs)) \<le> length (tl cs)"
    by (rule length_dropWhile_le)
  then show "(dropWhile (\<lambda>x. x \<noteq> CHR 0x0A) (tl cs), c # cs) \<in> measure length"
    by simp
next
  fix c :: char and cs :: string
  show "(cs, c # cs) \<in> measure length" by simp
qed

text \<open>
  \<open>re.sub(r'/\*.*?\*/', '', query, flags=re.DOTALL)\<close>: at the leftmost \<open>/*\<close> that has a
  \<open>*/\<close> after it, the lazy \<open>.*?\<close> stops at the first such \<open>*/\<close>; the match is deleted.
  \<open>after_close s\<close> is the text behind the first \<open>*/\<close> of \<open>s\<close>, when there is one.
\<close>

fun after_close :: "string \<Rightarrow> string option" where
  "after_close (a # b # cs) =
     (if a = CHR ''*'' \<and> b = CHR ''/'' then Some cs else after_close (b # cs))"
| "after_close _ = None"

definition block_comment_end :: "string \<Rightarrow> string option" where
  "block_comment_end s = (if prefix ''/*'' s then after_close (drop 2 s) else None)"

lemma after_close_length: "after_close s = Some r \<Longrightarrow> length r < length s"
  by (induction s arbitrary: r rule: after_close.induct) (auto split: if_splits)

lemma block_comment_end_length: "block_comment_end s = Some r \<Longrightarrow> length r < length s"
  by (auto simp: block_comment_end_def split: if_splits dest!: after_close_length)

function strip_block_comments :: "string \<Rightarrow> string" where
  "strip_block_comments [] = []"
| "strip_block_comments (c # cs) =
     (case block_comment_end (c # cs) of
        Some rest \<Rightarrow> strip_block_comments rest
      | None \<Rightarrow> c # strip_block_comments cs)"
  by pat_completeness auto
termination
  by (relation "measure length") (auto dest: block_comment_end_length)

definition preprocess_user_query :: "string \<Rightarrow> string" where
  "preprocess_user_query query =
     strip_block_comments (strip_line_comments (collapse_ws (strip query)))"

section \<open>The SQL rewriter\<close>

datatype error = ReError string | KeyError string | StoreError string

text \<open>
  \<open>\b\<close> holds between two neighbouring positions when exactly one of them holds a word
  character; the start and the end of the text count as non-word.
\<close>

definition word_boundary :: "char option \<Rightarrow> char option \<Rightarrow> bool" where
  "word_boundary p n =
     ((case p of None \<Rightarrow> False | Some c \<Rightarrow> is_word c)
      \<noteq> (case n of None \<Rightarrow> False | Some c \<Rightarrow> is_word c))"

fun next_char :: "string \<Rightarrow> char option" where
  "next_char [] = None"
| "next_char (c # cs) = Some c"

text \<open>
  \<open>kw_at w prev s\<close>: the pattern \<open>\bw\b\<close> (\<open>w\<close> a literal, \<open>re.IGNORECASE\<close>) matches at the
  position whose preceding character is \<open>prev\<close> and whose remaining text is \<open>s\<close>.
\<close>

definition kw_at :: "string \<Rightarrow> char option \<Rightarrow> string \<Rightarrow> bool" where
  "kw_at w prev s =
     (word_boundary prev (next_char s) \<and> ci_prefix w s
      \<and> word_boundary (Some (last (take (length w) s))) (next_char (drop (length w) s)))"

text \<open>
  \<open>\bgroup\s+by\b\<close> at a position: the greedy \<open>\s+\<close> takes the whole whitespace run (a
  shorter run would leave a whitespace character where \<open>b\<close> is required).
\<close>

definition group_by_at :: "char option \<Rightarrow> string \<Rightarrow> bool" where
  "group_by_at prev s =
     (let r = drop 5 s; r' = dropWhile is_space r
      in word_boundary prev (next_char s) \<and> ci_prefix ''group'' s
         \<and> r \<noteq> [] \<and> is_space (hd r) \<and> ci_prefix ''by'' r'
         \<and> word_boundary (Some (last (take 2 r'))) (next_char (drop 2 r')))"

text \<open>
  \<open>re.search\<close>: the pattern is tried at every position from left to right.
  \<open>count_from\<close> counts the positions at which it matches.
\<close>

fun search_from :: "(char option \<Rightarrow> string \<Rightarrow> bool) \<Rightarrow> char option \<Rightarrow> string \<Rightarrow> bool" where
  "search_from m prev [] = m prev []"
| "search_from m prev (c # cs) = (m prev (c # cs) \<or> search_from m (Some c) cs)"

fun count_from :: "(char option \<Rightarrow> string \<Rightarrow> bool) \<Rightarrow> char option \<Rightarrow> string \<Rightarrow> nat" where
  "count_from m prev [] = (if m prev [] then 1 else 0)"
| "count_from m prev (c # cs) = (if m prev (c # cs) then 1 else 0) + count_from m (Some c) cs"

definition has_joins :: "string \<Rightarrow> bool" where
  "has_joins query_text = search_from (kw_at ''join'') None query_text"

definition has_group_by :: "string \<Rightarrow> bool" where
  "has_group_by query_text = search_from group_by_at None query_text"

definition has_distinct :: "string \<Rightarrow> bool" where
  "has_distinct query_text = search_from (kw_at ''distinct'') None query_text"

text \<open>
  \<open>(SELECT\s+)\<close> under \<open>re.IGNORECASE\<close> at the start of \<open>s\<close>: the matched text and the rest.
\<close>

definition select_ws_at :: "string \<Rightarrow> (string \<times> string) option" where
  "select_ws_at s =
     (if ci_prefix ''SELECT'' s \<and> drop 6 s \<noteq> [] \<and> is_space (hd (drop 6 s))
      then Some (take 6 s @ takeWhile is_space (drop 6 s), dropWhile is_space (drop 6 s))
      else None)"

text \<open>
  \<open>re.sub(r'(SELECT\s+)', r'\1DISTINCT ', query_text, flags=re.IGNORECASE, count=1)\<close>:
  only the leftmost match is replaced.
\<close>

fun add_distinct :: "string \<Rightarrow> string" where
  "add_distinct [] = []"
| "add_distinct (c # cs) =
     (case select_ws_at (c # cs) of
        Some (m, rest) \<Rightarrow> m @ ''DISTINCT '' @ rest
      | None \<Rightarrow> c # add_distinct cs)"

definition detect_and_handle_duplicates :: "string \<Rightarrow> string \<times> string option" where
  "detect_and_handle_duplicates query_text =
     (if has_joins query_text \<and> \<not> has_group_by query_text \<and> \<not> has_distinct query_text
      then (add_distinct query_text, Some ''Added DISTINCT to prevent duplicate rows from joins'')
      else (query_text, None))"

text \<open>
  \<open>(\w+)\s*=\s*([\'"])(.*?)(\2)\<close> at the start of \<open>s\<close>: the groups 1, 2 and 3 and the rest
  behind the match. The greedy \<open>\w+\<close> and \<open>\s*\<close> take their whole runs (no shorter run
  is followed by what the pattern requires next); the lazy \<open>.*?\<close> stops at the first
  repetition of the quote and cannot cross a newline.
\<close>

definition skip_eq :: "string \<Rightarrow> string option" where
  "skip_eq s =
     (case dropWhile is_space s of
        [] \<Rightarrow> None
      | e # r \<Rightarrow> if e = CHR ''='' then Some (dropWhile is_space r) else None)"

definition quoted :: "string \<Rightarrow> (char \<times> string \<times> string) option" where
  "quoted s =
     (case s of
        [] \<Rightarrow> None
      | q # r \<Rightarrow>
          if q = CHR 0x27 \<or> q = CHR 0x22
          then (case dropWhile (\<lambda>x. x \<noteq> q \<and> x \<noteq> CHR 0x0A) r of
                  [] \<Rightarrow> None
                | x # r' \<Rightarrow>
                    if x = q then Some (q, takeWhile (\<lambda>x. x \<noteq> q \<and> x \<noteq> CHR 0x0A) r, r')
                    else None)
          else None)"

definition eq_literal_at :: "string \<Rightarrow> (string \<times> char \<times> string \<times> string) option" where
  "eq_literal_at s =
     (if takeWhile is_word s = [] then None
      else case skip_eq (dropWhile is_word s) of
        None \<Rightarrow> None
      | Some r \<Rightarrow>
          (case quoted r of
             None \<Rightarrow> None
           | Some (q, g3, r') \<Rightarrow> Some (takeWhile is_word s, q, g3, r')))"

lemma skip_eq_length: "skip_eq s = Some r \<Longrightarrow> length r < length s"
proof -
  assume a: "skip_eq s = Some r"
  then obtain e r0 where 1: "dropWhile is_space s = e # r0" and 2: "r = dropWhile is_space r0"
    by (auto simp: skip_eq_def split: list.splits if_splits)
  have "length (dropWhile is_space s) \<le> length s" by (rule length_dropWhile_le)
  moreover have "length (dropWhile is_space r0) \<le> length r0" by (rule length_dropWhile_le)
  ultimately show ?thesis using 1 2 by simp
qed

lemma quoted_length: "quoted s = Some (q, g, r) \<Longrightarrow> length r < length s"
proof -
  assume a: "quoted s = Some (q, g, r)"
  then obtain r0 x where 1: "s = q # r0"
    and 2: "dropWhile (\<lambda>x. x \<noteq> q \<and> x \<noteq> CHR 0x0A) r0 = x # r"
    by (auto simp: quoted_def split: list.splits if_splits)
  have "length (dropWhile (\<lambda>x. x \<noteq> q \<and> x \<noteq> CHR 0x0A) r0) \<le> length r0"
    by (rule length_dropWhile_le)
  then show ?thesis using 1 2 by simp
qed

lemma eq_literal_at_length: "eq_literal_at s = Some (g1, q, g3, r) \<Longrightarrow> length r < length s"
proof -
  assume a: "eq_literal_at s = Some (g1, q, g3, r)"
  then obtain r1 where 1: "skip_eq (dropWhile is_word s) = Some r1" and 2: "quoted r1 = Some (q, g3, r)"
    by (auto simp: eq_literal_at_def split: if_splits option.splits)
  have "length (dropWhile is_word s) \<le> length s" by (rule length_dropWhile_le)
  with skip_eq_length[OF 1] quoted_length[OF 2] show ?thesis by simp
qed

text \<open>
  \<open>re.sub(r'(\w+)\s*=\s*([\'"])(.*?)(\2)', r'LOWER(\1) = LOWER(\2\3\4)', query_text)\<close>
\<close>

function lower_equalities :: "string \<Rightarrow> string" where
  "lower_equalities [] = []"
| "lower_equalities (c # cs) =
     (case eq_literal_at (c # cs) of
        Some (g1, q, g3, rest) \<Rightarrow>
          ''LOWER('' @ g1 @ '') = LOWER('' @ [q] @ g3 @ [q] @ '')'' @ lower_equalities rest
      | None \<Rightarrow> c # lower_equalities cs)"
  by pat_completeness auto
termination
  by (relation "measure length") (auto dest: eq_literal_at_length)

text \<open>\<open>\w+\s*=\s*[\'"]\<close> at the start of \<open>s\<close>, and \<open>re.search\<close> for it.\<close>

definition eq_quote_at :: "string \<Rightarrow> bool" where
  "eq_quote_at s =
     (takeWhile is_word s \<noteq> []
      \<and> (case skip_eq (dropWhile is_word s) of
            None \<Rightarrow> False
          | Some r \<Rightarrow> (case r of [] \<Rightarrow> False | q # r' \<Rightarrow> q = CHR 0x27 \<or> q = CHR 0x22)))"

fun search_eq_quote :: "string \<Rightarrow> bool" where
  "search_eq_quote [] = False"
| "search_eq_quote (c # cs) = (eq_quote_at (c # cs) \<or> search_eq_quote cs)"

text \<open>
  The pattern of the second substitution of \<open>improve_string_matching\<close>, as the source
  writes it, and the check of the parentheses that \<open>re\<close> makes when it compiles a pattern:
  an escaped character and the content of a character class are skipped, every other
  \<open>)\<close> closes a group that must be open, and every group must be closed at the end.
\<close>

definition like_pattern :: string where
  "like_pattern =
     ''LOWER'' @ CHR 0x5C # ''(('' @ CHR 0x5C # ''w+)'' @ CHR 0x5C # '')'' @ CHR 0x5C # ''s*=''
     @ CHR 0x5C # ''s*LOWER'' @ CHR 0x5C # ''(['' @ [CHR 0x5C, CHR 0x27, CHR 0x22]
     @ ''])(.*?)(['' @ [CHR 0x5C, CHR 0x27, CHR 0x22] @ ''])'' @ CHR 0x5C # '')''"

fun parens_balanced :: "bool \<Rightarrow> nat \<Rightarrow> string \<Rightarrow> bool" where
  "parens_balanced in_class depth [] = (\<not> in_class \<and> depth = 0)"
| "parens_balanced in_class depth (c # cs) =
     (if c = CHR 0x5C then (case cs of [] \<Rightarrow> False | x # cs' \<Rightarrow> parens_balanced in_class depth cs')
      else if in_class then parens_balanced (c \<noteq> CHR '']'') depth cs
      else if c = CHR ''['' then parens_balanced True depth cs
      else if c = CHR ''('' then parens_balanced False (Suc depth) cs
      else if c = CHR '')'' then 0 < depth \<and> parens_balanced False (depth - 1) cs
      else parens_balanced False depth cs)"

text \<open>
  \<open>improve_string_matching\<close>. \<open>"LIKE" not in modified_query.upper()\<close>: on the code points
  modelled, \<open>str.upper\<close> yields one of the letters L, I, K, E only from that letter in
  either ASCII case, so the test is the one on the ASCII upper-casing. In the branch of
  the second substitution \<open>re.sub\<close> compiles \<open>like_pattern\<close> first; its parentheses are
  unbalanced, so the call raises \<open>re.error\<close>, which the function does not catch.
\<close>

definition improve_string_matching :: "string \<Rightarrow> error + (string \<times> string option)" where
  "improve_string_matching query_text =
     (let modified_query = lower_equalities query_text
      in if \<not> contains ''LIKE'' (map ascii_upper modified_query) \<and> search_eq_quote modified_query
         then (if parens_balanced False 0 like_pattern
               then Inr (modified_query,
                         Some ''Modified for case-insensitive and partial string matching'')
               else Inl (ReError ''unbalanced parenthesis''))
         else Inr (modified_query, None))"

text \<open>
  The two rewrites as \<open>sql_agent\<close> applies them to the extracted statement: the duplicate
  guard, then the string-match normalization on its result. The value is the rewritten
  statement with the description of each rewrite, or the exception raised.
\<close>

definition rewrite :: "string \<Rightarrow> error + (string \<times> string option \<times> string option)" where
  "rewrite extracted_sql =
     (let (improved_sql, duplicate_message) = detect_and_handle_duplicates extracted_sql
      in case improve_string_matching improved_sql of
           Inl e \<Rightarrow> Inl e
         | Inr (improved_sql', string_match_message) \<Rightarrow>
             Inr (improved_sql', duplicate_message, string_match_message))"

text \<open>
  \<open>has_select_ws s\<close>: the pattern \<open>SELECT\s+\<close> (\<open>re.IGNORECASE\<close>) matches somewhere in \<open>s\<close>.
\<close>

definition has_select_ws :: "string \<Rightarrow> bool" where
  "has_select_ws s = search_from (\<lambda>prev t. select_ws_at t \<noteq> None) None s"

text \<open>A literal none of whose characters matches a whitespace character.\<close>

definition solid :: "string \<Rightarrow> bool" where
  "solid w = (\<forall>c\<in>set w. \<not> is_space (ascii_lower c))"

section \<open>The store and the schema builder (\<open>get_table_schema\<close>)\<close>

text \<open>
  The values that \<open>run_sql\<close> puts into its rows, and a row: a \<open>dict\<close> from column names to
  values, in insertion order. \<open>py_str\<close> is \<open>str()\<close> as an f-string applies it, \<open>truthy\<close>
  is \<open>bool()\<close>, \<open>getitem\<close> is \<open>row[key]\<close>, which raises \<open>KeyError\<close> on a missing key.
\<close>

datatype val = VNone | VInt int | VStr string

type_synonym row = "(string \<times> val) list"

function digits :: "nat \<Rightarrow> string" where
  "digits n = (if n < 10 then [char_of (48 + n)] else digits (n div 10) @ [char_of (48 + n mod 10)])"
  by pat_completeness auto
termination
  by (relation "measure id") auto

definition str_of_int :: "int \<Rightarrow> string" where
  "str_of_int i = (if i < 0 then CHR ''-'' # digits (nat (- i)) else digits (nat i))"

fun py_str :: "val \<Rightarrow> string" where
  "py_str VNone = ''None''"
| "py_str (VInt i) = str_of_int i"
| "py_str (VStr s) = s"

fun truthy :: "val \<Rightarrow> bool" where
  "truthy VNone = False"
| "truthy (VInt i) = (i \<noteq> 0)"
| "truthy (VStr s) = (s \<noteq> [])"

definition getitem :: "row \<Rightarrow> string \<Rightarrow> error + val" where
  "getitem r k = (case map_of r k of None \<Rightarrow> Inl (KeyError k) | Some v \<Rightarrow> Inr v)"

text \<open>
  What the process sees of the database at the time of a call. \<open>sql_tool\<close> is the module
  variable of that name: \<open>None\<close> when \<open>SQLTools\<close> could not be initialised, else its
  \<open>run_sql\<close>, which returns rows or raises. \<open>sqlite_count\<close> is the direct \<open>sqlite3\<close> path of
  \<open>get_table_row_count\<close> (connect, execute, \<open>fetchone()[0]\<close>), raising or returning the
  count. Both belong to external libraries and are parameters of the model; logging and
  the clock are left out.
\<close>

record world =
  sql_tool :: "(string \<Rightarrow> error + row list) option"
  sqlite_count :: "string \<Rightarrow> error + int"

record column_info =
  col_name :: val
  col_type :: val
  primary_key :: bool
  nullable :: bool
  default_value :: val

record fk_info =
  fk_from :: val
  to_table :: val
  to_column :: val

record table_info =
  columns :: "column_info list"
  foreign_keys :: "fk_info list"
  row_count :: int
  sample_data :: "row list"

text \<open>A snapshot is the \<open>dict\<close> \<open>schema_info\<close>: table name to table entry, in insertion order.\<close>

type_synonym snapshot = "(val \<times> table_info) list"

text \<open>A list comprehension whose element expression may raise: the first exception ends it.\<close>

fun map_raising :: "('a \<Rightarrow> error + 'b) \<Rightarrow> 'a list \<Rightarrow> error + 'b list" where
  "map_raising f [] = Inr []"
| "map_raising f (x # xs) =
     (case f x of
        Inl e \<Rightarrow> Inl e
      | Inr y \<Rightarrow> (case map_raising f xs of Inl e \<Rightarrow> Inl e | Inr ys \<Rightarrow> Inr (y # ys)))"

definition column_of :: "row \<Rightarrow> error + column_info" where
  "column_of col =
     (case getitem col ''name'' of Inl e \<Rightarrow> Inl e | Inr n \<Rightarrow>
      case getitem col ''type'' of Inl e \<Rightarrow> Inl e | Inr t \<Rightarrow>
      case getitem col ''pk'' of Inl e \<Rightarrow> Inl e | Inr pk \<Rightarrow>
      case getitem col ''notnull'' of Inl e \<Rightarrow> Inl e | Inr nn \<Rightarrow>
      case getitem col ''dflt_value'' of Inl e \<Rightarrow> Inl e | Inr d \<Rightarrow>
        Inr \<lparr>col_name = n, col_type = t, primary_key = truthy pk,
             nullable = (\<not> truthy nn), default_value = d\<rparr>)"

definition fk_of :: "row \<Rightarrow> error + fk_info" where
  "fk_of fk =
     (case getitem fk ''from'' of Inl e \<Rightarrow> Inl e | Inr f \<Rightarrow>
      case getitem fk ''table'' of Inl e \<Rightarrow> Inl e | Inr t \<Rightarrow>
      case getitem fk ''to'' of Inl e \<Rightarrow> Inl e | Inr c \<Rightarrow>
        Inr \<lparr>fk_from = f, to_table = t, to_column = c\<rparr>)"

text \<open>\<open>get_table_row_count\<close> and \<open>get_table_sample_data\<close> catch every exception themselves.\<close>

definition get_table_row_count :: "world \<Rightarrow> val \<Rightarrow> int" where
  "get_table_row_count w table_name =
     (case sqlite_count w (''SELECT COUNT(*) FROM '' @ py_str table_name) of
        Inl e \<Rightarrow> 0
      | Inr n \<Rightarrow> n)"

definition get_table_sample_data :: "world \<Rightarrow> val \<Rightarrow> row list" where
  "get_table_sample_data w table_name =
     (case sql_tool w of
        None \<Rightarrow> []
      | Some run_sql \<Rightarrow>
          (case run_sql (''SELECT * FROM '' @ py_str table_name @ '' LIMIT 3'') of
             Inl e \<Rightarrow> []
           | Inr rows \<Rightarrow> rows))"

text \<open>
  The first loop of \<open>get_table_schema\<close>, over the rows of the table query, with
  \<open>schema_info\<close> as accumulator; any exception leaves the loop. The key \<open>sample_data\<close> is
  set by the second loop for every table before the function returns; until then the
  record holds no rows for it.
\<close>

fun build_tables ::
  "world \<Rightarrow> (string \<Rightarrow> error + row list) \<Rightarrow> row list \<Rightarrow> snapshot \<Rightarrow> error + snapshot" where
  "build_tables w run_sql [] schema_info = Inr schema_info"
| "build_tables w run_sql (table # tables) schema_info =
     (case getitem table ''name'' of Inl e \<Rightarrow> Inl e | Inr table_name \<Rightarrow>
      case run_sql (''PRAGMA table_info('' @ py_str table_name @ '')'') of
        Inl e \<Rightarrow> Inl e | Inr cols \<Rightarrow>
      case run_sql (''PRAGMA foreign_key_list('' @ py_str table_name @ '')'') of
        Inl e \<Rightarrow> Inl e | Inr fks \<Rightarrow>
      case map_raising column_of cols of Inl e \<Rightarrow> Inl e | Inr cs \<Rightarrow>
      case map_raising fk_of fks of Inl e \<Rightarrow> Inl e | Inr fs \<Rightarrow>
        build_tables w run_sql tables
          (AList.update table_name
             \<lparr>columns = cs, foreign_keys = fs,
              row_count = get_table_row_count w table_name, sample_data = []\<rparr>
             schema_info))"

definition add_sample_data :: "world \<Rightarrow> snapshot \<Rightarrow> snapshot" where
  "add_sample_data w schema_info =
     map (\<lambda>(table_name, info).
            (table_name, info\<lparr>sample_data := get_table_sample_data w table_name\<rparr>))
         schema_info"

definition list_tables_sql :: string where
  "list_tables_sql = ''SELECT name FROM sqlite_master WHERE type='table';''"

text \<open>The body of the \<open>try\<close> block, and the function body around it (before caching).\<close>

definition introspect :: "world \<Rightarrow> (string \<Rightarrow> error + row list) \<Rightarrow> error + snapshot" where
  "introspect w run_sql =
     (case run_sql list_tables_sql of
        Inl e \<Rightarrow> Inl e
      | Inr tables \<Rightarrow>
          (case build_tables w run_sql tables [] of
             Inl e \<Rightarrow> Inl e
           | Inr schema_info \<Rightarrow> Inr (add_sample_data w schema_info)))"

definition build_schema :: "world \<Rightarrow> snapshot" where
  "build_schema w =
     (case sql_tool w of
        None \<Rightarrow> []
      | Some run_sql \<Rightarrow> (case introspect w run_sql of Inl e \<Rightarrow> [] | Inr schema_info \<Rightarrow> schema_info))"

text \<open>
  \<open>build_fails w\<close>: in the world \<open>w\<close> the body of \<open>get_table_schema\<close> takes one of its two
  failure exits, \<open>if not sql_tool\<close> or the \<open>except\<close> clause.
\<close>

definition build_fails :: "world \<Rightarrow> bool" where
  "build_fails w =
     (case sql_tool w of None \<Rightarrow> True | Some run_sql \<Rightarrow> isl (introspect w run_sql))"

section \<open>The caches (\<open>functools.lru_cache\<close>)\<close>

text \<open>
  \<open>lru_cache(maxsize)\<close> around a function: the cache is the list of its entries, the most
  recently used first. A hit returns the stored value and moves the entry to the front;
  a miss calls the function, stores the value and drops the least recently used entry
  when the cache is full. The third component of the result says whether the wrapped
  function was called.
\<close>

definition lru_call ::
  "nat \<Rightarrow> ('k \<Rightarrow> 'v) \<Rightarrow> 'k \<Rightarrow> ('k \<times> 'v) list \<Rightarrow> 'v \<times> ('k \<times> 'v) list \<times> bool" where
  "lru_call maxsize f k cache =
     (case map_of cache k of
        Some v \<Rightarrow> (v, (k, v) # filter (\<lambda>e. fst e \<noteq> k) cache, False)
      | None \<Rightarrow> (f k, take maxsize ((k, f k) # cache), True))"

text \<open>\<open>@lru_cache(maxsize=32) def get_table_schema(cache_key=None)\<close>, called in world \<open>w\<close>.\<close>

definition get_table_schema ::
  "world \<Rightarrow> 'k \<Rightarrow> ('k \<times> snapshot) list \<Rightarrow> snapshot \<times> ('k \<times> snapshot) list \<times> bool" where
  "get_table_schema w cache_key cache = lru_call 32 (\<lambda>k. build_schema w) cache_key cache"

text \<open>Successive calls with one cache key, each in the world of its time.\<close>

fun calls_with_key ::
  "world list \<Rightarrow> 'k \<Rightarrow> ('k \<times> snapshot) list \<Rightarrow> (snapshot \<times> bool) list" where
  "calls_with_key [] cache_key cache = []"
| "calls_with_key (w # ws) cache_key cache =
     (fst (get_table_schema w cache_key cache), snd (snd (get_table_schema w cache_key cache)))
     # calls_with_key ws cache_key (fst (snd (get_table_schema w cache_key cache)))"

text \<open>
  \<open>@lru_cache(maxsize=100) def cached_sql_results(query_hash, sql_query)\<close>: the executor is
  \<open>sql_tool.run_sql\<close>; the \<open>try\<close> turns every exception into the return value \<open>None\<close>.
\<close>

definition run_or_none :: "world \<Rightarrow> string \<Rightarrow> row list option" where
  "run_or_none w sql_query =
     (case sql_tool w of
        None \<Rightarrow> None
      | Some run_sql \<Rightarrow> (case run_sql sql_query of Inl e \<Rightarrow> None | Inr rows \<Rightarrow> Some rows))"

definition cached_sql_results ::
  "world \<Rightarrow> string \<Rightarrow> string \<Rightarrow> ((string \<times> string) \<times> row list option) list
   \<Rightarrow> row list option \<times> ((string \<times> string) \<times> row list option) list \<times> bool" where
  "cached_sql_results w query_hash sql_query cache =
     lru_call 100 (\<lambda>k. run_or_none w (snd k)) (query_hash, sql_query) cache"

section \<open>The prompt composer (in \<open>sql_agent\<close>)\<close>

text \<open>
  The three markers of a column line, as the loop over \<open>table_info["columns"]\<close> computes
  them.
\<close>

definition pk_marker :: "column_info \<Rightarrow> string" where
  "pk_marker col = (if primary_key col then '' (PK)'' else [])"

definition nullable_marker :: "column_info \<Rightarrow> string" where
  "nullable_marker col = (if nullable col then '' NULL'' else '' NOT NULL'')"

definition default_marker :: "column_info \<Rightarrow> string" where
  "default_marker col =
     (if truthy (default_value col) then '' DEFAULT '' @ py_str (default_value col) else [])"

definition column_line :: "column_info \<Rightarrow> string" where
  "column_line col =
     ''- '' @ py_str (col_name col) @ '': '' @ py_str (col_type col)
     @ pk_marker col @ nullable_marker col @ default_marker col @ ''\<newline>''"

text \<open>
  The arrow of a relationship line is U+2192, outside the code points modelled; it stands
  here as the three bytes of its UTF-8 encoding.
\<close>

definition arrow :: string where
  "arrow = [CHR 0xE2, CHR 0x86, CHR 0x92]"

definition fk_line :: "fk_info \<Rightarrow> string" where
  "fk_line fk =
     ''- '' @ py_str (fk_from fk) @ '' '' @ arrow @ '' '' @ py_str (to_table fk)
     @ ''.'' @ py_str (to_column fk) @ ''\<newline>''"

text \<open>
  The loop over \<open>enumerate(sample)\<close>; \<open>n\<close> is \<open>len(sample)\<close> and \<open>i\<close> the index of the first
  row left. \<open>repr_row\<close> is the text an f-string gives for a row (the \<open>repr\<close> of a \<open>dict\<close>),
  a parameter of the model.
\<close>

fun sample_lines :: "(row \<Rightarrow> string) \<Rightarrow> nat \<Rightarrow> nat \<Rightarrow> row list \<Rightarrow> string" where
  "sample_lines repr_row n i [] = []"
| "sample_lines repr_row n i (row # rows) =
     (if i = 0 then ''```\<newline>'' else [])
     @ repr_row row @ ''\<newline>''
     @ (if int i = int n - 1 then ''```\<newline>'' else [])
     @ sample_lines repr_row n (Suc i) rows"

definition table_section :: "(row \<Rightarrow> string) \<Rightarrow> val \<times> table_info \<Rightarrow> string" where
  "table_section repr_row entry =
     (let table_name = fst entry; table_info = snd entry
      in ''## Table: '' @ py_str table_name @ '' ('' @ str_of_int (row_count table_info)
         @ '' rows)\<newline>''
         @ ''### Columns:\<newline>''
         @ concat (map column_line (columns table_info))
         @ (if foreign_keys table_info \<noteq> []
            then ''### Relationships:\<newline>'' @ concat (map fk_line (foreign_keys table_info))
            else [])
         @ (if sample_data table_info \<noteq> []
            then ''### Sample Data:\<newline>''
                 @ sample_lines repr_row (length (sample_data table_info)) 0
                     (sample_data table_info)
            else [])
         @ ''\<newline>'')"

definition schema_prompt :: "(row \<Rightarrow> string) \<Rightarrow> snapshot \<Rightarrow> string" where
  "schema_prompt repr_row schema_info =
     ''# Database Schema\<newline>\<newline>'' @ concat (map (table_section repr_row) schema_info)"

definition prompt_guidance :: string where
  "prompt_guidance =
     ''\<newline>''
     @ ''# Query Requirements:\<newline>''
     @ ''1. ALWAYS use DISTINCT when performing JOINs to avoid duplicate rows\<newline>''
     @ ''2. Use LOWER() function for case-insensitive string comparisons \<newline>''
     @ ''3. Use LIKE with wildcards (%) for partial string matching\<newline>''
     @ ''4. Format dates consistently using strftime() function\<newline>''
     @ ''5. When appropriate, include GROUP BY for aggregation\<newline>''
     @ ''6. Use meaningful column aliases for better readability\<newline>''
     @ ''7. Convert raw data into insights when appropriate\<newline>''
     @ ''8. Limit result sets to a reasonable size (max 100 rows)\<newline>''
     @ ''9. Add proper error handling for empty result sets\<newline>''
     @ ''\<newline>''
     @ ''# Response Format:\<newline>''
     @ ''0. explanation must should be in normal formate and normal english give space between each word\<newline>''
     @ ''1. A brief explanation of how you're approaching the question\<newline>''
     @ ''2. The SQL query (clearly formatted and with comments)\<newline>''
     @ ''3. The results in a clean, readable format (use markdown tables for structured data)\<newline>''
     @ ''4. A plain language explanation of what the results mean\<newline>''
     @ ''5. (If applicable) Data quality issues identified in the results\<newline>''
     @ ''6. (If applicable) Recommendations based on the data\<newline>''"

definition combined_query :: "(row \<Rightarrow> string) \<Rightarrow> snapshot \<Rightarrow> string \<Rightarrow> string" where
  "combined_query repr_row schema_info query =
     ''\<newline>'' @ schema_prompt repr_row schema_info @ ''\<newline>\<newline>''
     @ prompt_guidance @ ''\<newline>\<newline>''
     @ ''User Query: '' @ query @ ''\<newline>\<newline>''
     @ ''Respond with the information requested using the format above. Be thorough but concise. \<newline>''
     @ ''Explain medical terminology and SQL concepts in simple terms that non-technical users can understand.\<newline>''"

section \<open>Example stores\<close>

text \<open>
  A store with one table, \<open>purchase_orders (id INTEGER PRIMARY KEY, po_number VARCHAR(50),
  vendor VARCHAR(100))\<close>, holding two rows; \<open>purchase_orders_columns\<close> is what
  \<open>PRAGMA table_info\<close> reports for it.
\<close>

definition purchase_orders_columns :: "row list" where
  "purchase_orders_columns =
     [[(''cid'', VInt 0), (''name'', VStr ''id''), (''type'', VStr ''INTEGER''),
       (''notnull'', VInt 0), (''dflt_value'', VNone), (''pk'', VInt 1)],
      [(''cid'', VInt 1), (''name'', VStr ''po_number''), (''type'', VStr ''VARCHAR(50)''),
       (''notnull'', VInt 0), (''dflt_value'', VNone), (''pk'', VInt 0)],
      [(''cid'', VInt 2), (''name'', VStr ''vendor''), (''type'', VStr ''VARCHAR(100)''),
       (''notnull'', VInt 0), (''dflt_value'', VNone), (''pk'', VInt 0)]]"

definition purchase_orders_rows :: "row list" where
  "purchase_orders_rows =
     [[(''id'', VInt 1), (''po_number'', VStr ''MS-PO-2025-011''),
       (''vendor'', VStr ''Medline Industries'')],
      [(''id'', VInt 2), (''po_number'', VStr ''MS-PO-2025-012''),
       (''vendor'', VStr ''Surgical Supplies Co.'')]]"

definition healthy_run_sql :: "string \<Rightarrow> error + row list" where
  "healthy_run_sql q =
     (if q = list_tables_sql then Inr [[(''name'', VStr ''purchase_orders'')]]
      else if q = ''PRAGMA table_info(purchase_orders)'' then Inr purchase_orders_columns
      else if q = ''PRAGMA foreign_key_list(purchase_orders)'' then Inr []
      else if q = ''SELECT * FROM purchase_orders LIMIT 3'' then Inr purchase_orders_rows
      else Inl (StoreError ''no such table''))"

definition healthy_count :: "string \<Rightarrow> error + int" where
  "healthy_count q =
     (if q = ''SELECT COUNT(*) FROM purchase_orders'' then Inr 2
      else Inl (StoreError ''no such table''))"

definition healthy_world :: world where
  "healthy_world = \<lparr>sql_tool = Some healthy_run_sql, sqlite_count = healthy_count\<rparr>"

text \<open>
  A store with a second table, \<open>supply_catalog\<close>, whose column list cannot be read; every
  other query is answered as in the healthy store.
\<close>

definition broken_table_run_sql :: "string \<Rightarrow> error + row list" where
  "broken_table_run_sql q =
     (if q = list_tables_sql
      then Inr [[(''name'', VStr ''purchase_orders'')], [(''name'', VStr ''supply_catalog'')]]
      else if q = ''PRAGMA table_info(supply_catalog)''
      then Inl (StoreError ''database disk image is malformed'')
      else healthy_run_sql q)"

definition broken_table_world :: world where
  "broken_table_world = \<lparr>sql_tool = Some broken_table_run_sql, sqlite_count = healthy_count\<rparr>"

text \<open>A store on which every query fails.\<close>

definition failing_run_sql :: "string \<Rightarrow> error + row list" where
  "failing_run_sql q = Inl (StoreError ''unable to open database file'')"

definition failing_count :: "string \<Rightarrow> error + int" where
  "failing_count q = Inl (StoreError ''unable to open database file'')"

definition failing_world :: world where
  "failing_world = \<lparr>sql_tool = Some failing_run_sql, sqlite_count = failing_count\<rparr>"

text \<open>
  The text of a row in the examples: Python's \<open>repr\<close> of a \<open>dict\<close> whose keys and string
  values are printable ASCII without quote and backslash.
\<close>

fun repr_val :: "val \<Rightarrow> string" where
  "repr_val VNone = ''None''"
| "repr_val (VInt i) = str_of_int i"
| "repr_val (VStr s) = [CHR 0x27] @ s @ [CHR 0x27]"

fun repr_items :: "row \<Rightarrow> string" where
  "repr_items [] = []"
| "repr_items [(k, v)] = repr_val (VStr k) @ '': '' @ repr_val v"
| "repr_items ((k, v) # kv # kvs) =
     repr_val (VStr k) @ '': '' @ repr_val v @ '', '' @ repr_items (kv # kvs)"

definition repr_row_ascii :: "row \<Rightarrow> string" where
  "repr_row_ascii r = ''{'' @ repr_items r @ ''}''"

definition example_question :: string where
  "example_question = ''List all purchase orders from Medline Industries''"

section \<open>Properties of the query preprocessor\<close>

lemma contains_sublist: "contains p s = sublist p s"
  by (induction s) (auto simp: sublist_Cons_right)

lemma strip_line_comments_id: "\<not> contains ''--'' s \<Longrightarrow> strip_line_comments s = s"
  by (induction s) auto

lemma after_close_none: "\<not> contains ''/*'' s \<Longrightarrow> block_comment_end s = None"
  by (cases s) (auto simp: block_comment_end_def)

lemma strip_block_comments_id: "\<not> contains ''/*'' s \<Longrightarrow> strip_block_comments s = s"
  by (induction s) (auto simp: after_close_none)

lemma strip_decomp: "\<exists>a b. s = a @ strip s @ b"
proof -
  let ?d = "dropWhile is_space s"
  have "rev (takeWhile is_space (rev ?d) @ dropWhile is_space (rev ?d)) = rev (rev ?d)"
    by (simp only: takeWhile_dropWhile_id)
  then have "?d = strip s @ rev (takeWhile is_space (rev ?d))"
    by (simp only: rev_append rev_rev_ident strip_def)
  moreover have "s = takeWhile is_space s @ ?d" by simp
  ultimately have "s = takeWhile is_space s @ strip s @ rev (takeWhile is_space (rev ?d))" by metis
  then show ?thesis by blast
qed

lemma contains_strip: "contains p (strip s) \<Longrightarrow> contains p s"
proof -
  assume a: "contains p (strip s)"
  obtain a b where s: "s = a @ strip s @ b" using strip_decomp by blast
  from a obtain x y where "strip s = x @ p @ y" by (auto simp: contains_sublist sublist_def)
  with s have "s = (a @ x) @ p @ (y @ b)" by simp
  then show ?thesis unfolding contains_sublist sublist_def by blast
qed

lemma contains_dropWhile: "contains p (dropWhile P s) \<Longrightarrow> contains p s"
proof -
  assume a: "contains p (dropWhile P s)"
  have "suffix (dropWhile P s) s" by (rule suffix_dropWhile)
  then have "sublist (dropWhile P s) s" by (rule suffix_imp_sublist)
  with a show ?thesis unfolding contains_sublist using sublist_order.order_trans by blast
qed

lemma collapse_ws_hd:
  "collapse_ws s = y # r \<Longrightarrow> \<not> is_space y \<Longrightarrow> \<exists>s'. s = y # s'"
  by (cases s) (auto split: if_splits simp: is_space_def)

lemma contains_collapse_ws:
  assumes "\<not> is_space x" "\<not> is_space y"
  shows "contains [x, y] (collapse_ws s) \<Longrightarrow> contains [x, y] s"
proof (induction s rule: collapse_ws.induct)
  case 1
  then show ?case by simp
next
  case (2 c cs)
  show ?case
  proof (cases "is_space c")
    case True
    with 2 assms have "contains [x, y] (collapse_ws (dropWhile is_space cs))"
      by (auto simp: is_space_def)
    with 2 True have "contains [x, y] (dropWhile is_space cs)" by simp
    then have "contains [x, y] cs" by (rule contains_dropWhile)
    then show ?thesis by simp
  next
    case False
    with 2 have "prefix [x, y] (c # collapse_ws cs) \<or> contains [x, y] (collapse_ws cs)" by simp
    then show ?thesis
    proof
      assume "prefix [x, y] (c # collapse_ws cs)"
      then obtain r where "c = x" "collapse_ws cs = y # r" by (auto simp: prefix_def)
      with assms obtain s' where "cs = y # s'" using collapse_ws_hd by blast
      with \<open>c = x\<close> show ?thesis by simp
    next
      assume "contains [x, y] (collapse_ws cs)"
      with 2 False show ?thesis by simp
    qed
  qed
qed

lemma not_space_space: "is_space (CHR '' '')" by (simp add: is_space_def)

lemma collapse_ws_dropWhile:
  "s = [] \<or> \<not> is_space (hd s) \<Longrightarrow> dropWhile is_space (collapse_ws s) = collapse_ws s"
  by (cases s) auto

lemma dropWhile_hd: "dropWhile P s = [] \<or> \<not> P (hd (dropWhile P s))"
  using hd_dropWhile by blast

lemma collapse_ws_idem: "collapse_ws (collapse_ws s) = collapse_ws s"
proof (induction s rule: collapse_ws.induct)
  case 1
  show ?case by simp
next
  case (2 c cs)
  show ?case
  proof (cases "is_space c")
    case True
    let ?d = "dropWhile is_space cs"
    have "dropWhile is_space (collapse_ws ?d) = collapse_ws ?d"
      using dropWhile_hd by (rule collapse_ws_dropWhile)
    with True 2 show ?thesis by (simp add: not_space_space)
  next
    case False
    with 2 show ?thesis by simp
  qed
qed

lemma dropWhile_last:
  "s \<noteq> [] \<Longrightarrow> \<not> P (last s) \<Longrightarrow> dropWhile P s \<noteq> [] \<and> last (dropWhile P s) = last s"
  by (induction s) (auto split: if_splits)

lemma collapse_ws_last:
  "s \<noteq> [] \<Longrightarrow> \<not> is_space (last s) \<Longrightarrow>
   collapse_ws s \<noteq> [] \<and> last (collapse_ws s) = last s"
proof (induction s rule: collapse_ws.induct)
  case 1
  then show ?case by simp
next
  case (2 c cs)
  show ?case
  proof (cases "is_space c")
    case True
    with 2 have cs: "cs \<noteq> []" "\<not> is_space (last cs)" by (auto split: if_splits)
    then have d: "dropWhile is_space cs \<noteq> [] \<and> last (dropWhile is_space cs) = last cs"
      by (rule dropWhile_last)
    with cs 2 True show ?thesis by auto
  next
    case False
    with 2 show ?thesis by (cases cs) auto
  qed
qed

lemma strip_id:
  "s = [] \<or> (\<not> is_space (hd s) \<and> \<not> is_space (last s)) \<Longrightarrow> strip s = s"
proof (cases s)
  case Nil
  then show ?thesis by (simp add: strip_def)
next
  case (Cons c cs)
  assume "s = [] \<or> (\<not> is_space (hd s) \<and> \<not> is_space (last s))"
  with Cons have h: "\<not> is_space c" and l: "\<not> is_space (last s)" by auto
  from h Cons have "dropWhile is_space s = s" by simp
  moreover have "dropWhile is_space (rev s) = rev s"
  proof -
    have "hd (rev s) = last s" by (rule hd_rev)
    with l have "\<not> is_space (hd (rev s))" by metis
    then show ?thesis by (metis dropWhile_eq_self_iff)
  qed
  ultimately show ?thesis by (simp add: strip_def)
qed

lemma strip_hd_last:
  assumes "strip s \<noteq> []"
  shows "\<not> is_space (hd (strip s)) \<and> \<not> is_space (last (strip s))"
proof -
  let ?d = "dropWhile is_space s"
  let ?e = "dropWhile is_space (rev ?d)"
  from assms have e: "?e \<noteq> []" by (simp add: strip_def)
  then have he: "\<not> is_space (hd ?e)" using hd_dropWhile by blast
  from e have "last (strip s) = hd ?e" by (simp add: strip_def last_rev)
  with he have l: "\<not> is_space (last (strip s))" by simp
  have d: "?d \<noteq> []"
  proof
    assume "?d = []"
    then have "?e = []" by (simp only: rev.simps(1) dropWhile.simps(1))
    with e show False by simp
  qed
  then have hd: "\<not> is_space (hd ?d)" using hd_dropWhile by blast
  from d this have "dropWhile is_space (rev ?d) \<noteq> [] \<and> last ?e = last (rev ?d)"
    by (intro dropWhile_last) (auto simp: last_rev)
  then have "last ?e = hd ?d" using d by (simp add: last_rev)
  moreover from e have "hd (strip s) = last ?e" by (simp add: strip_def hd_rev)
  ultimately show ?thesis using hd l by simp
qed

lemma collapse_ws_hd_keep:
  "s \<noteq> [] \<Longrightarrow> \<not> is_space (hd s) \<Longrightarrow> hd (collapse_ws s) = hd s"
  by (cases s) auto

lemma strip_collapse_strip: "strip (collapse_ws (strip s)) = collapse_ws (strip s)"
proof (cases "strip s = []")
  case True
  have "strip [] = []" by (simp add: strip_def)
  with True show ?thesis by simp
next
  case False
  then have hl: "\<not> is_space (hd (strip s)) \<and> \<not> is_space (last (strip s))"
    by (rule strip_hd_last)
  with False have "collapse_ws (strip s) \<noteq> [] \<and> last (collapse_ws (strip s)) = last (strip s)"
    by (intro collapse_ws_last) auto
  moreover from False hl have "hd (collapse_ws (strip s)) = hd (strip s)"
    by (intro collapse_ws_hd_keep) auto
  ultimately show ?thesis using hl by (intro strip_id) auto
qed

lemma preprocess_no_comment:
  assumes "\<not> contains ''--'' q" "\<not> contains ''/*'' q"
  shows "preprocess_user_query q = collapse_ws (strip q)"
proof -
  have sp: "is_space c \<Longrightarrow> c \<noteq> CHR ''-'' \<and> c \<noteq> CHR ''/'' \<and> c \<noteq> CHR ''*''" for c
    by (auto simp: is_space_def)
  have 1: "\<not> contains ''--'' (collapse_ws (strip q))"
    using assms(1) contains_strip contains_collapse_ws[of "CHR ''-''" "CHR ''-''"] sp by blast
  have 2: "\<not> contains ''/*'' (collapse_ws (strip q))"
    using assms(2) contains_strip contains_collapse_ws[of "CHR ''/''" "CHR ''*''"] sp by blast
  show ?thesis
    by (simp add: preprocess_user_query_def strip_line_comments_id[OF 1] strip_block_comments_id[OF 2])
qed

text \<open>
  C7. The scenario of the specification: the raw input
  \<open>"Show revenue   \n-- comment\n this quarter"\<close>. The whitespace runs, newlines included,
  are collapsed before the line comment is looked for, so the comment reaches the end of
  the text: the preprocessor returns \<open>"Show revenue "\<close> and the words after the comment
  are lost; the result is not \<open>"Show revenue this quarter"\<close>.
\<close>

theorem preprocess_scenario_loses_tail:
  "preprocess_user_query ''Show revenue   \<newline>-- comment\<newline> this quarter'' = ''Show revenue ''
   \<and> preprocess_user_query ''Show revenue   \<newline>-- comment\<newline> this quarter''
       \<noteq> ''Show revenue this quarter''"
  by code_simp

text \<open>
  C6, as stated, fails: the preprocessor is not idempotent. On \<open>"revenue -- this year"\<close> the
  first pass leaves the space before the comment, and the second pass strips it.
\<close>

theorem preprocess_not_idempotent:
  "preprocess_user_query (preprocess_user_query ''revenue -- this year'')
     \<noteq> preprocess_user_query ''revenue -- this year''"
  by code_simp

text \<open>
  C6, amended: on every input that contains neither \<open>--\<close> nor \<open>/*\<close>, the preprocessor is
  idempotent.
\<close>

theorem preprocess_idempotent_without_comments:
  assumes "\<not> contains ''--'' q" and "\<not> contains ''/*'' q"
  shows "preprocess_user_query (preprocess_user_query q) = preprocess_user_query q"
proof -
  have sp: "is_space c \<Longrightarrow> c \<noteq> CHR ''-'' \<and> c \<noteq> CHR ''/'' \<and> c \<noteq> CHR ''*''" for c
    by (auto simp: is_space_def)
  have 1: "\<not> contains ''--'' (collapse_ws (strip q))"
    using assms(1) contains_strip contains_collapse_ws[of "CHR ''-''" "CHR ''-''"] sp by blast
  have 2: "\<not> contains ''/*'' (collapse_ws (strip q))"
    using assms(2) contains_strip contains_collapse_ws[of "CHR ''/''" "CHR ''*''"] sp by blast
  have "preprocess_user_query (collapse_ws (strip q)) = collapse_ws (strip (collapse_ws (strip q)))"
    using 1 2 by (rule preprocess_no_comment)
  also have "\<dots> = collapse_ws (strip q)"
    by (simp add: strip_collapse_strip collapse_ws_idem)
  finally show ?thesis by (simp add: preprocess_no_comment[OF assms])
qed

theorem preprocess_idempotent_without_comments_witness:
  "\<not> contains ''--'' ''  Show   me\<newline> all  '' \<and> \<not> contains ''/*'' ''  Show   me\<newline> all  ''
   \<and> preprocess_user_query (preprocess_user_query ''  Show   me\<newline> all  '')
       = preprocess_user_query ''  Show   me\<newline> all  ''"
proof -
  have h1: "\<not> contains ''--'' ''  Show   me\<newline> all  ''" by simp
  have h2: "\<not> contains ''/*'' ''  Show   me\<newline> all  ''" by simp
  show ?thesis
    using h1 h2 preprocess_idempotent_without_comments [OF h1 h2] by simp
qed

section \<open>Properties of the SQL rewriter\<close>

lemma eq_literal_imp_eq_quote: "eq_literal_at s = Some x \<Longrightarrow> eq_quote_at s"
  by (auto simp: eq_literal_at_def eq_quote_at_def quoted_def
           split: if_splits option.splits list.splits)

lemma lower_equalities_id: "\<not> search_eq_quote s \<Longrightarrow> lower_equalities s = s"
proof (induction s)
  case Nil
  show ?case by simp
next
  case (Cons c cs)
  then have "\<not> eq_quote_at (c # cs)" and "\<not> search_eq_quote cs" by auto
  then have "eq_literal_at (c # cs) = None" and "lower_equalities cs = cs"
    using eq_literal_imp_eq_quote Cons.IH by (cases "eq_literal_at (c # cs)", auto)
  then show ?case by simp
qed

lemma improve_string_matching_id:
  "\<not> search_eq_quote s \<Longrightarrow> improve_string_matching s = Inr (s, None)"
  by (simp add: improve_string_matching_def lower_equalities_id)

text \<open>
  C2, amended: for every statement that contains \<open>DISTINCT\<close> or \<open>GROUP BY\<close> (as the duplicate
  guard tests them) and no equality against a quoted literal (a match of
  \<open>\w+\s*=\s*['"]\<close>), the two rewrites return the statement unchanged and record no
  description.
\<close>

theorem rewrite_keeps_distinct_without_equality:
  assumes "has_distinct s \<or> has_group_by s" and "\<not> search_eq_quote s"
  shows "rewrite s = Inr (s, None, None)"
proof -
  from assms(1) have "detect_and_handle_duplicates s = (s, None)"
    by (auto simp: detect_and_handle_duplicates_def)
  with assms(2) show ?thesis
    by (simp add: rewrite_def improve_string_matching_id)
qed

theorem rewrite_keeps_distinct_without_equality_witness:
  "(has_distinct ''SELECT DISTINCT vendor FROM purchase_orders''
      \<or> has_group_by ''SELECT DISTINCT vendor FROM purchase_orders'')
   \<and> \<not> search_eq_quote ''SELECT DISTINCT vendor FROM purchase_orders''
   \<and> rewrite ''SELECT DISTINCT vendor FROM purchase_orders''
       = Inr (''SELECT DISTINCT vendor FROM purchase_orders'', None, None)"
proof -
  have h1: "has_distinct ''SELECT DISTINCT vendor FROM purchase_orders''
      \<or> has_group_by ''SELECT DISTINCT vendor FROM purchase_orders''"
    by code_simp
  have h2: "\<not> search_eq_quote ''SELECT DISTINCT vendor FROM purchase_orders''"
    by code_simp
  show ?thesis
    using h1 h2 rewrite_keeps_distinct_without_equality [OF h1 h2] by simp
qed

text \<open>
  C2, as stated, fails: a statement that contains \<open>DISTINCT\<close> passes the duplicate guard
  unchanged, but the string-match normalization still rewrites its equality against a
  quoted literal, so the rewritten statement differs from the original.
\<close>

theorem rewrite_changes_distinct_query:
  "has_distinct ''SELECT DISTINCT a FROM t WHERE b = 'x' LIMIT 5''
   \<and> rewrite ''SELECT DISTINCT a FROM t WHERE b = 'x' LIMIT 5''
       = Inr (''SELECT DISTINCT a FROM t WHERE LOWER(b) = LOWER('x') LIMIT 5'', None, None)
   \<and> ''SELECT DISTINCT a FROM t WHERE LOWER(b) = LOWER('x') LIMIT 5''
       \<noteq> ''SELECT DISTINCT a FROM t WHERE b = 'x' LIMIT 5''"
  by code_simp

text \<open>The pattern of the second substitution does not compile.\<close>

lemma like_pattern_unbalanced: "\<not> parens_balanced False 0 like_pattern"
  by code_simp

text \<open>
  C3: the rewriter is not total. On the partial statement \<open>SELECT * FROM t WHERE name = 'x\<close>
  (the closing quote missing) the first substitution finds nothing, the text contains no
  \<open>LIKE\<close> and still matches \<open>\w+\s*=\s*['"]\<close>, so the second substitution is reached and
  \<open>re.sub\<close> raises \<open>re.error\<close> on its pattern; nothing in the rewriter catches it and the
  original statement is not returned.
\<close>

theorem improve_string_matching_raises:
  "improve_string_matching ''SELECT * FROM t WHERE name = 'x''
     = Inl (ReError ''unbalanced parenthesis'')
   \<and> rewrite ''SELECT * FROM t WHERE name = 'x'' = Inl (ReError ''unbalanced parenthesis'')"
  by code_simp

lemma space_not_word: "is_space c \<Longrightarrow> \<not> is_word c"
  by (auto simp: is_space_def is_word_def Let_def)

lemma space_ascii_lower: "is_space c \<Longrightarrow> ascii_lower c = c"
  by (auto simp: is_space_def ascii_lower_def Let_def)

lemma ci_prefix_append: "ci_prefix w a \<Longrightarrow> ci_prefix w (a @ b)"
  by (induction w a rule: ci_prefix.induct) auto

lemma ci_prefix_inside:
  "ci_prefix w (a @ b) \<Longrightarrow> solid w \<Longrightarrow> a \<noteq> [] \<Longrightarrow> is_space (last a) \<Longrightarrow>
   length w < length a \<and> ci_prefix w a"
proof (induction w a rule: ci_prefix.induct)
  case (1 s)
  then show ?case by simp
next
  case (2 p ps)
  then show ?case by simp
next
  case (3 p ps c cs)
  show ?case
  proof (cases "cs = []")
    case True
    with 3 have "is_space c" and "ascii_lower p = ascii_lower c" by auto
    then have "is_space (ascii_lower p)" by (simp add: space_ascii_lower)
    with 3(3) show ?thesis by (simp add: solid_def)
  next
    case False
    with 3 show ?thesis by (auto simp: solid_def)
  qed
qed

lemma kw_at_append:
  assumes "solid w" "a \<noteq> []" "is_space (last a)"
  shows "kw_at w prev (a @ b) = kw_at w prev a"
proof (cases "ci_prefix w (a @ b)")
  case True
  with assms have l: "length w < length a" and p: "ci_prefix w a"
    using ci_prefix_inside by blast+
  from l have "next_char (drop (length w) (a @ b)) = next_char (drop (length w) a)"
    by (cases "drop (length w) a") auto
  moreover from assms(2) have "next_char (a @ b) = next_char a" by (cases a) auto
  ultimately show ?thesis using l True p by (simp add: kw_at_def)
next
  case False
  then have "\<not> ci_prefix w a" using ci_prefix_append by blast
  with False show ?thesis by (simp add: kw_at_def)
qed

lemma kw_at_Nil: "w \<noteq> [] \<Longrightarrow> \<not> kw_at w prev []"
  by (cases w) (auto simp: kw_at_def)

lemma count_from_append:
  assumes "solid w" "w \<noteq> []"
  shows "a \<noteq> [] \<Longrightarrow> is_space (last a) \<Longrightarrow>
         count_from (kw_at w) prev (a @ b)
           = count_from (kw_at w) prev a + count_from (kw_at w) (Some (last a)) b"
proof (induction a arbitrary: prev)
  case Nil
  then show ?case by simp
next
  case (Cons x a)
  have k: "kw_at w prev ((x # a) @ b) = kw_at w prev (x # a)"
    using assms(1) Cons.prems by (intro kw_at_append) auto
  show ?case
  proof (cases "a = []")
    case True
    with k assms(2) show ?thesis by (simp add: kw_at_Nil)
  next
    case False
    with Cons have "count_from (kw_at w) (Some x) (a @ b)
           = count_from (kw_at w) (Some x) a + count_from (kw_at w) (Some (last a)) b"
      by simp
    with k False show ?thesis by simp
  qed
qed

lemma kw_at_prev:
  "is_word p = is_word p' \<Longrightarrow> kw_at w (Some p) s = kw_at w (Some p') s"
  by (simp add: kw_at_def word_boundary_def)

lemma count_from_prev:
  "is_word p = is_word p' \<Longrightarrow>
   count_from (kw_at w) (Some p) s = count_from (kw_at w) (Some p') s"
  by (cases s) (auto simp: kw_at_prev[of p p'])

lemma search_count: "search_from m prev s = (0 < count_from m prev s)"
  by (induction s arbitrary: prev) auto

lemma solid_distinct: "solid ''distinct''"
  by (simp add: solid_def is_space_def ascii_lower_def)

lemma solid_DISTINCT: "solid ''DISTINCT''"
  by (simp add: solid_def is_space_def ascii_lower_def)

lemma count_inserted_tail:
  "count_from (kw_at ''distinct'') (Some (CHR ''D'')) ''ISTINCT '' = 0"
  by code_simp

lemma kw_at_inserted:
  "ci_prefix ''distinct'' ''DISTINCT '' \<and> is_word (CHR ''D'')
   \<and> word_boundary (Some (last (take (length ''distinct'') ''DISTINCT '')))
         (next_char (drop (length ''distinct'') ''DISTINCT ''))"
  by code_simp

lemma count_inserted:
  assumes "\<not> is_word p"
  shows "count_from (kw_at ''distinct'') (Some p) ''DISTINCT '' = 1"
proof -
  have "word_boundary (Some p) (next_char ''DISTINCT '')"
    using assms kw_at_inserted by (simp add: word_boundary_def)
  then have "kw_at ''distinct'' (Some p) ''DISTINCT ''"
    unfolding kw_at_def using kw_at_inserted by blast
  moreover have "count_from (kw_at ''distinct'') (Some p) ''DISTINCT ''
      = (if kw_at ''distinct'' (Some p) ''DISTINCT '' then 1 else 0)
        + count_from (kw_at ''distinct'') (Some (CHR ''D'')) ''ISTINCT ''"
    by (rule count_from.simps(2))
  ultimately show ?thesis by (simp only: count_inserted_tail if_True)
qed

lemma select_ws_at_shape:
  assumes "select_ws_at x = Some (m, rest)"
  shows "x = m @ rest \<and> m \<noteq> [] \<and> is_space (last m)"
proof -
  define r where "r = drop 6 x"
  define h where "h = take 6 x"
  define c where "c = (ci_prefix ''SELECT'' x \<and> r \<noteq> [] \<and> is_space (hd r))"
  have e: "select_ws_at x
      = (if c then Some (h @ takeWhile is_space r, dropWhile is_space r) else None)"
    unfolding c_def r_def h_def by (rule select_ws_at_def)
  have c: c
  proof (rule ccontr)
    assume "\<not> c"
    with e have "select_ws_at x = None" by simp
    with assms show False by simp
  qed
  with e assms have m: "m = h @ takeWhile is_space r" and r: "rest = dropWhile is_space r"
    by simp_all
  from c have "r \<noteq> []" "is_space (hd r)" unfolding c_def by blast+
  then have t: "takeWhile is_space r \<noteq> []" by (cases r) auto
  then have "last (takeWhile is_space r) \<in> set (takeWhile is_space r)"
    by (rule last_in_set)
  then have "is_space (last (takeWhile is_space r))"
    by (rule set_takeWhileD[THEN conjunct2])
  moreover have "last m = last (takeWhile is_space r)" using m t by simp
  ultimately have l: "is_space (last m)" by simp
  have "h @ r = x" unfolding h_def r_def by (rule append_take_drop_id)
  then have "x = m @ rest" using m r by simp
  with l m t show ?thesis by simp
qed

lemma add_distinct_decomp:
  "search_from (\<lambda>prev t. select_ws_at t \<noteq> None) prev s \<Longrightarrow>
   \<exists>pre m rest. s = pre @ m @ rest \<and> select_ws_at (m @ rest) = Some (m, rest)
     \<and> (\<forall>i<length pre. select_ws_at (drop i s) = None)
     \<and> add_distinct s = pre @ m @ ''DISTINCT '' @ rest"
proof (induction s arbitrary: prev)
  case Nil
  then show ?case by (simp add: select_ws_at_def)
next
  case (Cons c cs)
  show ?case
  proof (cases "select_ws_at (c # cs)")
    case (Some mr)
    obtain m rest where mr: "mr = (m, rest)" by (cases mr)
    with Some have eq: "c # cs = m @ rest" using select_ws_at_shape by blast
    from Some mr have ad: "add_distinct (c # cs) = m @ ''DISTINCT '' @ rest" by simp
    from Some mr eq have sel: "select_ws_at (m @ rest) = Some (m, rest)" by metis
    have "c # cs = [] @ m @ rest \<and> select_ws_at (m @ rest) = Some (m, rest)
      \<and> (\<forall>i<length ([]::string). select_ws_at (drop i (c # cs)) = None)
      \<and> add_distinct (c # cs) = [] @ m @ ''DISTINCT '' @ rest"
      using eq ad sel by (simp only: append_Nil list.size not_less0 simp_thms)
    then show ?thesis by blast
  next
    case None
    with Cons.prems have "search_from (\<lambda>prev t. select_ws_at t \<noteq> None) (Some c) cs" by simp
    then obtain pre m rest where ih: "cs = pre @ m @ rest"
      "select_ws_at (m @ rest) = Some (m, rest)"
      "\<forall>i<length pre. select_ws_at (drop i cs) = None"
      "add_distinct cs = pre @ m @ ''DISTINCT '' @ rest"
      using Cons.IH by blast
    have "\<forall>i<length (c # pre). select_ws_at (drop i (c # cs)) = None"
    proof (intro allI impI)
      fix i assume "i < length (c # pre)"
      then show "select_ws_at (drop i (c # cs)) = None"
        using None ih(3) by (cases i) auto
    qed
    with ih None have "c # cs = (c # pre) @ m @ rest \<and> select_ws_at (m @ rest) = Some (m, rest)
      \<and> (\<forall>i<length (c # pre). select_ws_at (drop i (c # cs)) = None)
      \<and> add_distinct (c # cs) = (c # pre) @ m @ ''DISTINCT '' @ rest"
      by simp
    then show ?thesis by blast
  qed
qed

lemma count_after_insert:
  assumes m: "m \<noteq> []" "is_space (last m)"
    and z: "count_from (kw_at ''distinct'') None (pre @ m @ rest) = 0"
  shows "count_from (kw_at ''distinct'') None (pre @ m @ ''DISTINCT '' @ rest) = 1"
proof -
  let ?k = "kw_at ''distinct''"
  let ?a = "pre @ m"
  from m have a: "?a \<noteq> []" "is_space (last ?a)" by auto
  have w: "solid ''distinct''" "''distinct'' \<noteq> []" by (simp_all add: solid_distinct)
  have "count_from ?k None (?a @ rest)
          = count_from ?k None ?a + count_from ?k (Some (last ?a)) rest"
    using w a by (rule count_from_append)
  with z have z1: "count_from ?k None ?a = 0" and z2: "count_from ?k (Some (last ?a)) rest = 0"
    by simp_all
  have nw: "\<not> is_word (last ?a)" using a(2) by (rule space_not_word)
  have sp: "is_space (last ''DISTINCT '')" by (simp add: is_space_def)
  have "count_from ?k (Some (last ?a)) (''DISTINCT '' @ rest)
          = count_from ?k (Some (last ?a)) ''DISTINCT ''
            + count_from ?k (Some (last ''DISTINCT '')) rest"
    using w by (rule count_from_append) (simp_all add: not_space_space)
  also have "count_from ?k (Some (last ?a)) ''DISTINCT '' = 1"
    using nw by (rule count_inserted)
  also have "count_from ?k (Some (last ''DISTINCT '')) rest = count_from ?k (Some (last ?a)) rest"
    using nw space_not_word[OF sp] by (intro count_from_prev) simp
  finally have c: "count_from ?k (Some (last ?a)) (''DISTINCT '' @ rest) = 1"
    using z2 by simp
  have "count_from ?k None (?a @ (''DISTINCT '' @ rest))
          = count_from ?k None ?a + count_from ?k (Some (last ?a)) (''DISTINCT '' @ rest)"
    using w a by (rule count_from_append)
  with z1 c show ?thesis by simp
qed

text \<open>
  Where \<open>SELECT\<close> followed by whitespace occurs in a statement \<open>s\<close> with a word-bounded
  \<open>JOIN\<close> and without \<open>GROUP BY\<close> and \<open>DISTINCT\<close> (all as the duplicate guard tests them), the
  guard returns \<open>s\<close> with \<open>DISTINCT \<close> inserted behind the leftmost match of \<open>SELECT\s+\<close>,
  together with the description, and the result holds exactly one word-bounded \<open>DISTINCT\<close>.
\<close>

lemma duplicate_guard_adds_one_distinct:
  assumes "has_joins s" and "\<not> has_group_by s" and "\<not> has_distinct s"
    and "has_select_ws s"
  shows "\<exists>pre m rest.
           s = pre @ m @ rest \<and> select_ws_at (m @ rest) = Some (m, rest)
           \<and> (\<forall>i<length pre. select_ws_at (drop i s) = None)
           \<and> detect_and_handle_duplicates s
               = (pre @ m @ ''DISTINCT '' @ rest,
                  Some ''Added DISTINCT to prevent duplicate rows from joins'')
           \<and> count_from (kw_at ''distinct'') None (pre @ m @ ''DISTINCT '' @ rest) = 1"
proof -
  from assms(4) obtain pre m rest where d: "s = pre @ m @ rest"
      "select_ws_at (m @ rest) = Some (m, rest)"
      "\<forall>i<length pre. select_ws_at (drop i s) = None"
      "add_distinct s = pre @ m @ ''DISTINCT '' @ rest"
    unfolding has_select_ws_def using add_distinct_decomp by blast
  from d(2) have m: "m \<noteq> []" "is_space (last m)" using select_ws_at_shape by blast+
  from assms(3) d(1) have "count_from (kw_at ''distinct'') None (pre @ m @ rest) = 0"
    by (simp add: has_distinct_def search_count)
  with m have "count_from (kw_at ''distinct'') None (pre @ m @ ''DISTINCT '' @ rest) = 1"
    by (rule count_after_insert)
  moreover from assms(1-3) d(4) have "detect_and_handle_duplicates s
               = (pre @ m @ ''DISTINCT '' @ rest,
                  Some ''Added DISTINCT to prevent duplicate rows from joins'')"
    by (simp add: detect_and_handle_duplicates_def)
  ultimately show ?thesis using d by blast
qed

lemma duplicate_guard_adds_one_distinct_example:
  "has_joins ''SELECT name FROM purchase_orders JOIN purchase_order_items ON 1''
   \<and> \<not> has_group_by ''SELECT name FROM purchase_orders JOIN purchase_order_items ON 1''
   \<and> \<not> has_distinct ''SELECT name FROM purchase_orders JOIN purchase_order_items ON 1''
   \<and> has_select_ws ''SELECT name FROM purchase_orders JOIN purchase_order_items ON 1''
   \<and> detect_and_handle_duplicates
        ''SELECT name FROM purchase_orders JOIN purchase_order_items ON 1''
      = (''SELECT DISTINCT name FROM purchase_orders JOIN purchase_order_items ON 1'',
         Some ''Added DISTINCT to prevent duplicate rows from joins'')
   \<and> count_from (kw_at ''distinct'') None
        (fst (detect_and_handle_duplicates
           ''SELECT name FROM purchase_orders JOIN purchase_order_items ON 1'')) = 1"
proof -
  let ?s = "''SELECT name FROM purchase_orders JOIN purchase_order_items ON 1''"
  have h1: "has_joins ?s" by code_simp
  have h2: "\<not> has_group_by ?s" by code_simp
  have h3: "\<not> has_distinct ?s" by code_simp
  have h4: "has_select_ws ?s" by code_simp
  have v: "detect_and_handle_duplicates ?s
      = (''SELECT DISTINCT name FROM purchase_orders JOIN purchase_order_items ON 1'',
         Some ''Added DISTINCT to prevent duplicate rows from joins'')"
    by code_simp
  from duplicate_guard_adds_one_distinct [OF h1 h2 h3 h4]
  obtain pre m rest where
    "detect_and_handle_duplicates ?s
       = (pre @ m @ ''DISTINCT '' @ rest,
          Some ''Added DISTINCT to prevent duplicate rows from joins'')"
    "count_from (kw_at ''distinct'') None (pre @ m @ ''DISTINCT '' @ rest) = 1"
    by blast
  then have "count_from (kw_at ''distinct'') None (fst (detect_and_handle_duplicates ?s)) = 1"
    by simp
  with h1 h2 h3 h4 v show ?thesis by blast
qed

text \<open>
  C1: the duplicate guard does not add \<open>DISTINCT\<close> to every statement it reports on. Its
  substitution looks for \<open>SELECT\s+\<close>, a \<open>SELECT\<close> with whitespace behind it and no word
  boundary before it. \<open>SELECT* FROM a JOIN b\<close> contains \<open>JOIN\<close> and neither \<open>GROUP BY\<close> nor
  \<open>DISTINCT\<close>, but its \<open>SELECT\<close> is followed by \<open>*\<close>: the guard, and the rewrite as a whole,
  return the statement unchanged, with no \<open>DISTINCT\<close> in it, and still report
  \<open>Added DISTINCT to prevent duplicate rows from joins\<close>. In
  \<open>WITH xselect AS (SELECT 1) SELECT a FROM t JOIN b\<close> the leftmost match is the end of the
  name \<open>xselect\<close>, so \<open>DISTINCT\<close> lands behind that name and not behind the first \<open>SELECT\<close>
  keyword.
\<close>

theorem duplicate_guard_without_select_ws:
  "has_joins ''SELECT* FROM a JOIN b''
   \<and> \<not> has_group_by ''SELECT* FROM a JOIN b'' \<and> \<not> has_distinct ''SELECT* FROM a JOIN b''
   \<and> detect_and_handle_duplicates ''SELECT* FROM a JOIN b''
       = (''SELECT* FROM a JOIN b'', Some ''Added DISTINCT to prevent duplicate rows from joins'')
   \<and> rewrite ''SELECT* FROM a JOIN b''
       = Inr (''SELECT* FROM a JOIN b'',
              Some ''Added DISTINCT to prevent duplicate rows from joins'', None)
   \<and> count_from (kw_at ''distinct'') None
        (fst (detect_and_handle_duplicates ''SELECT* FROM a JOIN b'')) = 0
   \<and> \<not> contains ''DISTINCT'' (fst (detect_and_handle_duplicates ''SELECT* FROM a JOIN b''))
   \<and> has_joins ''WITH xselect AS (SELECT 1) SELECT a FROM t JOIN b''
   \<and> \<not> has_group_by ''WITH xselect AS (SELECT 1) SELECT a FROM t JOIN b''
   \<and> \<not> has_distinct ''WITH xselect AS (SELECT 1) SELECT a FROM t JOIN b''
   \<and> detect_and_handle_duplicates ''WITH xselect AS (SELECT 1) SELECT a FROM t JOIN b''
       = (''WITH xselect DISTINCT AS (SELECT 1) SELECT a FROM t JOIN b'',
          Some ''Added DISTINCT to prevent duplicate rows from joins'')"
  by code_simp

section \<open>Properties of the caches\<close>

lemma lru_call_hit:
  "map_of cache k = Some v \<Longrightarrow>
     lru_call n f k cache = (v, (k, v) # filter (\<lambda>e. fst e \<noteq> k) cache, False)"
  by (simp add: lru_call_def)

lemma lru_call_miss:
  "map_of cache k = None \<Longrightarrow> lru_call n f k cache = (f k, take n ((k, f k) # cache), True)"
  by (simp add: lru_call_def)

lemma lru_call_stores:
  assumes "0 < n" and "lru_call n f k cache = (v, cache', i)"
  shows "map_of cache' k = Some v"
proof (cases "map_of cache k")
  case None
  from assms(1) obtain m where "n = Suc m" by (cases n) auto
  with None assms(2) show ?thesis by (auto simp: lru_call_def)
next
  case (Some u)
  with assms(2) show ?thesis by (auto simp: lru_call_def)
qed

lemma lru_call_again:
  assumes "0 < n" and "lru_call n f k cache = (v, cache', i)"
  shows "lru_call n g k cache' = (v, (k, v) # filter (\<lambda>e. fst e \<noteq> k) cache', False)"
  using lru_call_stores[OF assms] by (rule lru_call_hit)

lemma lru_call_invoked:
  assumes "lru_call n f k cache = (v, cache', True)"
  shows "v = f k"
  using assms by (auto simp: lru_call_def split: option.splits)

text \<open>
  C4, amended: the result cache keeps the outcome of the first call, whatever it is. After
  a call of \<open>cached_sql_results\<close> with a query hash and an SQL text, a second call with the
  same arguments, in any state of the store, does not invoke the executor and returns what
  the first call returned; and when the first call invoked the executor, that is the
  executor's rows when it succeeded and \<open>None\<close> when it failed.
\<close>

theorem result_cache_keeps_first_outcome:
  assumes "cached_sql_results w1 query_hash sql_query cache = (r1, cache1, i1)"
  shows "cached_sql_results w2 query_hash sql_query cache1
           = (r1, ((query_hash, sql_query), r1)
                   # filter (\<lambda>e. fst e \<noteq> (query_hash, sql_query)) cache1, False)
         \<and> (i1 \<longrightarrow> r1 = run_or_none w1 sql_query)"
proof -
  have a: "lru_call 100 (\<lambda>k. run_or_none w1 (snd k)) (query_hash, sql_query) cache
             = (r1, cache1, i1)"
    using assms by (simp add: cached_sql_results_def)
  have "cached_sql_results w2 query_hash sql_query cache1
           = (r1, ((query_hash, sql_query), r1)
                   # filter (\<lambda>e. fst e \<noteq> (query_hash, sql_query)) cache1, False)"
    unfolding cached_sql_results_def using a by (intro lru_call_again) simp_all
  moreover have "i1 \<longrightarrow> r1 = run_or_none w1 sql_query"
    using a lru_call_invoked[of 100 "\<lambda>k. run_or_none w1 (snd k)" "(query_hash, sql_query)" cache r1 cache1]
    by auto
  ultimately show ?thesis by simp
qed

theorem result_cache_keeps_first_outcome_witness:
  "cached_sql_results failing_world ''9a0b'' ''SELECT vendor FROM purchase_orders'' []
     = (None, [((''9a0b'', ''SELECT vendor FROM purchase_orders''), None)], True)
   \<and> cached_sql_results healthy_world ''9a0b'' ''SELECT vendor FROM purchase_orders''
        [((''9a0b'', ''SELECT vendor FROM purchase_orders''), None)]
     = (None, [((''9a0b'', ''SELECT vendor FROM purchase_orders''), None)], False)
   \<and> run_or_none failing_world ''SELECT vendor FROM purchase_orders'' = None"
proof -
  have h: "cached_sql_results failing_world ''9a0b'' ''SELECT vendor FROM purchase_orders'' []
     = (None, [((''9a0b'', ''SELECT vendor FROM purchase_orders''), None)], True)"
    by (simp add: cached_sql_results_def lru_call_def run_or_none_def failing_world_def
          failing_run_sql_def)
  show ?thesis
    using h result_cache_keeps_first_outcome [OF h, of healthy_world] by simp
qed

text \<open>
  C4, as stated, fails: on a store where the executor fails, the first call for
  \<open>SELECT 1\<close> invokes the executor and returns \<open>None\<close>, the \<open>None\<close> is stored, and the second
  identical call returns it without invoking the executor again.
\<close>

theorem result_cache_caches_failure:
  "run_or_none failing_world ''SELECT 1'' = None
   \<and> cached_sql_results failing_world ''c4ca'' ''SELECT 1'' []
       = (None, [((''c4ca'', ''SELECT 1''), None)], True)
   \<and> cached_sql_results failing_world ''c4ca'' ''SELECT 1'' [((''c4ca'', ''SELECT 1''), None)]
       = (None, [((''c4ca'', ''SELECT 1''), None)], False)"
  by (simp add: cached_sql_results_def lru_call_def run_or_none_def failing_world_def
        failing_run_sql_def)

lemma build_fails_empty: "build_fails w \<Longrightarrow> build_schema w = []"
  by (auto simp: build_fails_def build_schema_def isl_def split: option.splits)

lemma calls_with_key_hits:
  "map_of cache b = Some v \<Longrightarrow> calls_with_key ws b cache = replicate (length ws) (v, False)"
proof (induction ws arbitrary: cache)
  case Nil
  show ?case by simp
next
  case (Cons w ws)
  have g: "get_table_schema w b cache = (v, (b, v) # filter (\<lambda>e. fst e \<noteq> b) cache, False)"
    unfolding get_table_schema_def using Cons.prems by (rule lru_call_hit)
  have "map_of ((b, v) # filter (\<lambda>e. fst e \<noteq> b) cache) b = Some v" by simp
  then have "calls_with_key ws b ((b, v) # filter (\<lambda>e. fst e \<noteq> b) cache)
               = replicate (length ws) (v, False)"
    by (rule Cons.IH)
  with g show ?case by simp
qed

text \<open>
  C8: of two successive calls \<open>get_table_schema(b)\<close> the second returns the snapshot the first
  returned and does not invoke the builder, whatever the store has become; a call with a
  time bucket that has no entry in the cache invokes the builder and returns what it
  builds. (Identity of the object is not expressible here; the second call returns the
  stored value without building one.)
\<close>

theorem schema_cache_same_bucket_no_rebuild:
  "(get_table_schema w1 b cache = (s1, cache1, i1)
      \<and> get_table_schema w2 b cache1 = (s2, cache2, i2) \<longrightarrow> s2 = s1 \<and> \<not> i2)
   \<and> (map_of c b' = None \<and> get_table_schema w b' c = (s, c', i)
      \<longrightarrow> i \<and> s = build_schema w)"
proof -
  have "s2 = s1 \<and> \<not> i2"
    if a: "get_table_schema w1 b cache = (s1, cache1, i1)"
      and c: "get_table_schema w2 b cache1 = (s2, cache2, i2)"
  proof -
    from a have "lru_call 32 (\<lambda>k. build_schema w1) b cache = (s1, cache1, i1)"
      by (simp add: get_table_schema_def)
    then have "lru_call 32 (\<lambda>k. build_schema w2) b cache1
                 = (s1, (b, s1) # filter (\<lambda>e. fst e \<noteq> b) cache1, False)"
      by (intro lru_call_again) simp_all
    with c show ?thesis by (simp add: get_table_schema_def)
  qed
  moreover have "i \<and> s = build_schema w"
    if "map_of c b' = None" and "get_table_schema w b' c = (s, c', i)"
    using that by (simp add: get_table_schema_def lru_call_miss)
  ultimately show ?thesis by blast
qed

theorem schema_cache_same_bucket_no_rebuild_witness:
  "get_table_schema healthy_world (5873921 :: int) []
     = (build_schema healthy_world, [(5873921, build_schema healthy_world)], True)
   \<and> get_table_schema failing_world (5873921 :: int) [(5873921, build_schema healthy_world)]
     = (build_schema healthy_world, [(5873921, build_schema healthy_world)], False)
   \<and> map_of [(5873921 :: int, build_schema healthy_world)] 5873922 = None
   \<and> get_table_schema failing_world (5873922 :: int) [(5873921, build_schema healthy_world)]
     = (build_schema failing_world,
        [(5873922, build_schema failing_world), (5873921, build_schema healthy_world)], True)"
proof -
  have h1: "get_table_schema healthy_world (5873921 :: int) []
     = (build_schema healthy_world, [(5873921, build_schema healthy_world)], True)"
    by (simp add: get_table_schema_def lru_call_def)
  have h2: "get_table_schema failing_world (5873921 :: int) [(5873921, build_schema healthy_world)]
     = (build_schema healthy_world, [(5873921, build_schema healthy_world)], False)"
    by (simp add: get_table_schema_def lru_call_def)
  have h3: "map_of [(5873921 :: int, build_schema healthy_world)] 5873922 = None"
    by simp
  have h4: "get_table_schema failing_world (5873922 :: int) [(5873921, build_schema healthy_world)]
     = (build_schema failing_world,
        [(5873922, build_schema failing_world), (5873921, build_schema healthy_world)], True)"
    by (simp add: get_table_schema_def lru_call_def)
  show ?thesis
    using h1 h2 h3 h4
      schema_cache_same_bucket_no_rebuild [where ?w1.0 = healthy_world and b = "5873921 :: int"
        and cache = "[]" and c = "[(5873921, build_schema healthy_world)]"
        and ?s1.0 = "build_schema healthy_world"
        and ?cache1.0 = "[(5873921, build_schema healthy_world)]" and ?i1.0 = True
        and ?w2.0 = failing_world and ?s2.0 = "build_schema healthy_world"
        and ?cache2.0 = "[(5873921, build_schema healthy_world)]" and ?i2.0 = False
        and b' = 5873922 and w = failing_world and s = "build_schema failing_world"
        and c' = "[(5873922, build_schema failing_world), (5873921, build_schema healthy_world)]"
        and i = True]
    by simp
qed

text \<open>
  C10: when a call \<open>get_table_schema(b)\<close> finds no entry for \<open>b\<close> and its build fails, it returns
  the empty snapshot and stores it; every later call with the same key, in any state of
  the store, returns the empty snapshot without invoking the builder.
\<close>

theorem failed_build_is_memoized:
  assumes "map_of cache b = None" and "build_fails w"
  shows "get_table_schema w b cache = ([], take 32 ((b, []) # cache), True)
         \<and> calls_with_key ws b (take 32 ((b, []) # cache))
             = replicate (length ws) ([], False)"
proof -
  have e: "build_schema w = []" using assms(2) by (rule build_fails_empty)
  have g: "get_table_schema w b cache = ([], take 32 ((b, []) # cache), True)"
    using assms(1) e by (simp add: get_table_schema_def lru_call_miss)
  have "map_of (take 32 ((b, []) # cache)) b = Some []" by simp
  then have "calls_with_key ws b (take 32 ((b, []) # cache)) = replicate (length ws) ([], False)"
    by (rule calls_with_key_hits)
  with g show ?thesis by simp
qed

theorem failed_build_is_memoized_witness:
  "map_of ([] :: (int \<times> snapshot) list) 5873921 = None \<and> build_fails failing_world
   \<and> get_table_schema failing_world (5873921 :: int) [] = ([], [(5873921, [])], True)
   \<and> calls_with_key [healthy_world, healthy_world] (5873921 :: int) [(5873921, [])]
       = [([], False), ([], False)]
   \<and> build_schema healthy_world \<noteq> []"
proof -
  have h1: "map_of ([] :: (int \<times> snapshot) list) 5873921 = None" by simp
  have h2: "build_fails failing_world"
    by (simp add: build_fails_def failing_world_def introspect_def failing_run_sql_def)
  have h3: "build_schema healthy_world \<noteq> []"
    by code_simp
  show ?thesis
    using h1 h2 h3
      failed_build_is_memoized [OF h1 h2, of "[healthy_world, healthy_world]"]
    by simp
qed

section \<open>Properties of the schema builder\<close>

lemma build_tables_aborts:
  assumes "table \<in> set tables" and "getitem table ''name'' = Inr n"
    and "isl (run_sql (''PRAGMA table_info('' @ py_str n @ '')''))
         \<or> isl (run_sql (''PRAGMA foreign_key_list('' @ py_str n @ '')''))"
  shows "isl (build_tables w run_sql tables schema_info)"
  using assms(1)
proof (induction tables arbitrary: schema_info)
  case Nil
  then show ?case by simp
next
  case (Cons t ts)
  show ?case
  proof (cases "t = table")
    case True
    with assms(2,3) show ?thesis by (auto simp: isl_def split: sum.splits)
  next
    case False
    with Cons.prems have "table \<in> set ts" by simp
    then have "isl (build_tables w run_sql ts acc)" for acc by (rule Cons.IH)
    then show ?thesis by (simp split: sum.splits)
  qed
qed

text \<open>
  C5, amended: the builder is all-or-nothing. It returns the empty snapshot when
  \<open>sql_tool\<close> is not initialised, and also when the connection is established and the
  column query or the foreign-key query of some single listed table raises: the one
  \<open>try\<close> block around both loops drops every table, not only the failing one.
\<close>

theorem build_schema_all_or_nothing:
  "(sql_tool w = None \<longrightarrow> build_schema w = [])
   \<and> (sql_tool w = Some run_sql \<and> run_sql list_tables_sql = Inr tables
        \<and> table \<in> set tables \<and> getitem table ''name'' = Inr n
        \<and> (isl (run_sql (''PRAGMA table_info('' @ py_str n @ '')''))
             \<or> isl (run_sql (''PRAGMA foreign_key_list('' @ py_str n @ '')'')))
      \<longrightarrow> build_schema w = [])"
proof -
  have "build_schema w = []" if "sql_tool w = None"
    using that by (simp add: build_schema_def)
  moreover have "build_schema w = []"
    if a: "sql_tool w = Some run_sql" "run_sql list_tables_sql = Inr tables"
      and b: "table \<in> set tables" "getitem table ''name'' = Inr n"
        "isl (run_sql (''PRAGMA table_info('' @ py_str n @ '')''))
         \<or> isl (run_sql (''PRAGMA foreign_key_list('' @ py_str n @ '')''))"
  proof -
    from b have "isl (build_tables w run_sql tables [])" by (rule build_tables_aborts)
    then obtain e where "build_tables w run_sql tables [] = Inl e" by (auto simp: isl_def)
    with a show ?thesis by (simp add: build_schema_def introspect_def)
  qed
  ultimately show ?thesis by blast
qed

theorem build_schema_all_or_nothing_witness:
  "sql_tool broken_table_world = Some broken_table_run_sql
   \<and> broken_table_run_sql list_tables_sql
       = Inr [[(''name'', VStr ''purchase_orders'')], [(''name'', VStr ''supply_catalog'')]]
   \<and> getitem [(''name'', VStr ''supply_catalog'')] ''name'' = Inr (VStr ''supply_catalog'')
   \<and> isl (broken_table_run_sql (''PRAGMA table_info('' @ py_str (VStr ''supply_catalog'') @ '')''))
   \<and> build_schema broken_table_world = []"
proof -
  have h1: "sql_tool broken_table_world = Some broken_table_run_sql"
    by (simp add: broken_table_world_def)
  have h2: "broken_table_run_sql list_tables_sql
       = Inr [[(''name'', VStr ''purchase_orders'')], [(''name'', VStr ''supply_catalog'')]]"
    by (simp add: broken_table_run_sql_def)
  have h3: "[(''name'', VStr ''supply_catalog'')]
       \<in> set [[(''name'', VStr ''purchase_orders'')], [(''name'', VStr ''supply_catalog'')]]"
    by simp
  have h4: "getitem [(''name'', VStr ''supply_catalog'')] ''name'' = Inr (VStr ''supply_catalog'')"
    by (simp add: getitem_def)
  have h5: "isl (broken_table_run_sql (''PRAGMA table_info('' @ py_str (VStr ''supply_catalog'') @ '')''))"
    by (simp add: broken_table_run_sql_def list_tables_sql_def)
  show ?thesis
    using h1 h2 h3 h4 h5
      build_schema_all_or_nothing [where w = broken_table_world and run_sql = broken_table_run_sql
        and tables = "[[(''name'', VStr ''purchase_orders'')], [(''name'', VStr ''supply_catalog'')]]"
        and table = "[(''name'', VStr ''supply_catalog'')]" and n = "VStr ''supply_catalog''"]
    by simp
qed

text \<open>
  C5, as stated, fails: in a store with the tables \<open>purchase_orders\<close> and \<open>supply_catalog\<close>,
  where only \<open>PRAGMA table_info(supply_catalog)\<close> raises, the connection is established and
  \<open>purchase_orders\<close> can be introspected, yet the snapshot is empty and does not contain
  \<open>purchase_orders\<close>.
\<close>

theorem build_schema_drops_healthy_table:
  "sql_tool broken_table_world = Some broken_table_run_sql
   \<and> broken_table_run_sql ''PRAGMA table_info(purchase_orders)'' = Inr purchase_orders_columns
   \<and> broken_table_run_sql ''PRAGMA foreign_key_list(purchase_orders)'' = Inr []
   \<and> broken_table_run_sql ''PRAGMA table_info(supply_catalog)''
       = Inl (StoreError ''database disk image is malformed'')
   \<and> build_schema broken_table_world = []
   \<and> map_of (build_schema broken_table_world) (VStr ''purchase_orders'') = None"
proof -
  have 1: "sql_tool broken_table_world = Some broken_table_run_sql"
    by (simp add: broken_table_world_def)
  have 2: "broken_table_run_sql ''PRAGMA table_info(purchase_orders)'' = Inr purchase_orders_columns"
    by (simp add: broken_table_run_sql_def healthy_run_sql_def list_tables_sql_def)
  have 3: "broken_table_run_sql ''PRAGMA foreign_key_list(purchase_orders)'' = Inr []"
    by (simp add: broken_table_run_sql_def healthy_run_sql_def list_tables_sql_def)
  have 4: "broken_table_run_sql ''PRAGMA table_info(supply_catalog)''
       = Inl (StoreError ''database disk image is malformed'')"
    by (simp add: broken_table_run_sql_def list_tables_sql_def)
  have 5: "build_schema broken_table_world = []"
    by code_simp
  from 1 2 3 4 5 show ?thesis by simp
qed

section \<open>Properties of the prompt composer\<close>

lemma contains_appendI: "contains p (pre @ p @ post)"
  by (simp add: contains_sublist sublist_appendI)

lemma contains_in_middle: "contains p s \<Longrightarrow> contains p (pre @ s @ post)"
proof -
  assume "contains p s"
  then obtain a b where "s = a @ p @ b" by (auto simp: contains_sublist sublist_def)
  then have "pre @ s @ post = (pre @ a) @ p @ (b @ post)" by simp
  then show ?thesis by (simp only: contains_appendI)
qed

lemma column_lines_end:
  "\<exists>p. ''### Columns:\<newline>'' @ concat (map column_line cols) = p @ ''\<newline>''"
proof (induction cols rule: rev_induct)
  case Nil
  have "''### Columns:\<newline>'' @ concat (map column_line []) = ''### Columns:'' @ ''\<newline>''"
    by simp
  then show ?case by blast
next
  case (snoc col cols)
  obtain l where l: "column_line col = l @ ''\<newline>''"
    by (simp add: column_line_def)
  have "''### Columns:\<newline>'' @ concat (map column_line (cols @ [col]))
          = (''### Columns:\<newline>'' @ concat (map column_line cols) @ l) @ ''\<newline>''"
    by (simp add: l)
  then show ?case by blast
qed

lemma column_line_in_columns:
  assumes "col \<in> set cols"
  shows "contains (''\<newline>'' @ column_line col)
           (''### Columns:\<newline>'' @ concat (map column_line cols))"
proof -
  from assms obtain as bs where s: "cols = as @ col # bs" by (auto simp: in_set_conv_decomp)
  obtain p where p: "''### Columns:\<newline>'' @ concat (map column_line as) = p @ ''\<newline>''"
    using column_lines_end by blast
  have "''### Columns:\<newline>'' @ concat (map column_line cols)
          = (''### Columns:\<newline>'' @ concat (map column_line as))
            @ column_line col @ concat (map column_line bs)"
    by (simp add: s)
  also have "\<dots> = p @ (''\<newline>'' @ column_line col) @ concat (map column_line bs)"
    by (simp only: p append_assoc)
  finally show ?thesis by (simp only: contains_appendI)
qed

lemma column_line_in_section:
  assumes "col \<in> set (columns (snd entry))"
  shows "contains (''\<newline>'' @ column_line col) (table_section repr_row entry)"
proof -
  define a where "a = ''## Table: '' @ py_str (fst entry) @ '' (''
    @ str_of_int (row_count (snd entry)) @ '' rows)\<newline>''"
  define b where "b =
    (if foreign_keys (snd entry) \<noteq> []
     then ''### Relationships:\<newline>'' @ concat (map fk_line (foreign_keys (snd entry)))
     else [])
    @ (if sample_data (snd entry) \<noteq> []
       then ''### Sample Data:\<newline>''
            @ sample_lines repr_row (length (sample_data (snd entry))) 0 (sample_data (snd entry))
       else [])
    @ ''\<newline>''"
  have "table_section repr_row entry
       = a @ (''### Columns:\<newline>'' @ concat (map column_line (columns (snd entry)))) @ b"
    unfolding table_section_def Let_def a_def b_def by (simp only: append_assoc)
  then show ?thesis
    using column_line_in_columns[OF assms] by (simp only: contains_in_middle)
qed

lemma column_line_in_schema:
  assumes "entry \<in> set schema_info" and "col \<in> set (columns (snd entry))"
  shows "contains (''\<newline>'' @ column_line col) (schema_prompt repr_row schema_info)"
proof -
  from assms(1) obtain as bs where s: "schema_info = as @ entry # bs"
    by (auto simp: in_set_conv_decomp)
  have "schema_prompt repr_row schema_info
          = (''# Database Schema\<newline>\<newline>'' @ concat (map (table_section repr_row) as))
            @ table_section repr_row entry @ concat (map (table_section repr_row) bs)"
    by (simp add: schema_prompt_def s)
  then show ?thesis
    using column_line_in_section[OF assms(2)] by (simp only: contains_in_middle)
qed

text \<open>
  C9, amended: for every snapshot with a \<open>purchase_orders\<close> table whose \<open>vendor\<close> column has the
  declared type \<open>VARCHAR(100)\<close>, the schema section of the prompt has a line that starts with
  \<open>- vendor: VARCHAR(100)\<close> and goes on with the annotations of the column: \<open> (PK)\<close> for a
  primary key, then \<open> NULL\<close> or \<open> NOT NULL\<close> (never empty), then \<open> DEFAULT\<close> and the default
  when there is one. The prompt starts with a newline and the schema section, and its tail
  is the line \<open>User Query: \<close> with the question, an empty line and the two closing lines.
\<close>

theorem prompt_vendor_line_and_question:
  assumes "(VStr ''purchase_orders'', table_info) \<in> set schema_info"
    and "col \<in> set (columns table_info)"
    and "col_name col = VStr ''vendor''" and "col_type col = VStr ''VARCHAR(100)''"
  shows "contains (''\<newline>- vendor: VARCHAR(100)'' @ pk_marker col @ nullable_marker col
                     @ default_marker col @ ''\<newline>'')
           (schema_prompt repr_row schema_info)
         \<and> nullable_marker col \<noteq> []
         \<and> prefix (''\<newline>'' @ schema_prompt repr_row schema_info)
             (combined_query repr_row schema_info query)
         \<and> suffix (''User Query: '' @ query @ ''\<newline>\<newline>''
                    @ ''Respond with the information requested using the format above. Be thorough but concise. \<newline>''
                    @ ''Explain medical terminology and SQL concepts in simple terms that non-technical users can understand.\<newline>'')
             (combined_query repr_row schema_info query)"
proof -
  have "col \<in> set (columns (snd (VStr ''purchase_orders'', table_info)))"
    using assms(2) by simp
  with assms(1) have "contains (''\<newline>'' @ column_line col) (schema_prompt repr_row schema_info)"
    by (rule column_line_in_schema)
  moreover have "''\<newline>'' @ column_line col
      = ''\<newline>- vendor: VARCHAR(100)'' @ pk_marker col @ nullable_marker col
          @ default_marker col @ ''\<newline>''"
    using assms(3,4) by (simp add: column_line_def)
  ultimately have 1: "contains (''\<newline>- vendor: VARCHAR(100)'' @ pk_marker col
        @ nullable_marker col @ default_marker col @ ''\<newline>'')
      (schema_prompt repr_row schema_info)"
    by simp
  have 2: "nullable_marker col \<noteq> []" by (simp add: nullable_marker_def)
  have 3: "prefix (''\<newline>'' @ schema_prompt repr_row schema_info)
             (combined_query repr_row schema_info query)"
    unfolding combined_query_def by (simp only: append_assoc prefix_def) blast
  have 4: "suffix (''User Query: '' @ query @ ''\<newline>\<newline>''
                    @ ''Respond with the information requested using the format above. Be thorough but concise. \<newline>''
                    @ ''Explain medical terminology and SQL concepts in simple terms that non-technical users can understand.\<newline>'')
             (combined_query repr_row schema_info query)"
    unfolding combined_query_def suffix_def
    by (rule exI[of _ "''\<newline>'' @ schema_prompt repr_row schema_info @ ''\<newline>\<newline>''
                         @ prompt_guidance @ ''\<newline>\<newline>''"]) (simp only: append_assoc)
  from 1 2 3 4 show ?thesis by simp
qed

theorem prompt_vendor_line_and_question_witness:
  "(VStr ''purchase_orders'', snd (hd (build_schema healthy_world)))
      \<in> set (build_schema healthy_world)
   \<and> last (columns (snd (hd (build_schema healthy_world))))
      \<in> set (columns (snd (hd (build_schema healthy_world))))
   \<and> col_name (last (columns (snd (hd (build_schema healthy_world))))) = VStr ''vendor''
   \<and> col_type (last (columns (snd (hd (build_schema healthy_world))))) = VStr ''VARCHAR(100)''
   \<and> contains ''\<newline>- vendor: VARCHAR(100) NULL\<newline>''
        (schema_prompt repr_row_ascii (build_schema healthy_world))
   \<and> suffix (''User Query: '' @ example_question @ ''\<newline>\<newline>''
              @ ''Respond with the information requested using the format above. Be thorough but concise. \<newline>''
              @ ''Explain medical terminology and SQL concepts in simple terms that non-technical users can understand.\<newline>'')
        (combined_query repr_row_ascii (build_schema healthy_world) example_question)"
proof -
  let ?t = "snd (hd (build_schema healthy_world))"
  let ?c = "last (columns ?t)"
  have h1: "(VStr ''purchase_orders'', ?t) \<in> set (build_schema healthy_world)" by code_simp
  have h2: "?c \<in> set (columns ?t)" by code_simp
  have h3: "col_name ?c = VStr ''vendor''" by code_simp
  have h4: "col_type ?c = VStr ''VARCHAR(100)''" by code_simp
  have m: "pk_marker ?c = []" "nullable_marker ?c = '' NULL''" "default_marker ?c = []"
    by code_simp+
  show ?thesis
    using h1 h2 h3 h4
      prompt_vendor_line_and_question [OF h1 h2 h3 h4, of repr_row_ascii example_question]
    by (simp add: m)
qed

lemma suffix_last: "suffix xs ys \<Longrightarrow> xs \<noteq> [] \<Longrightarrow> last xs = last ys"
  by (auto simp: suffix_def)

lemma combined_query_last: "last (combined_query repr_row schema_info query) = CHR 0x0A"
  by (simp add: combined_query_def)

text \<open>
  C9, as stated, fails: for the snapshot of the example store and the question
  \<open>List all purchase orders from Medline Industries\<close> the schema section has no line
  \<open>- vendor: VARCHAR(100)\<close> (the line is \<open>- vendor: VARCHAR(100) NULL\<close>), and the question is
  not the tail of the prompt, which ends with the closing lines.
\<close>

theorem prompt_line_and_tail_differ:
  "map_of (build_schema healthy_world) (VStr ''purchase_orders'') \<noteq> None
   \<and> \<not> contains ''\<newline>- vendor: VARCHAR(100)\<newline>''
         (schema_prompt repr_row_ascii (build_schema healthy_world))
   \<and> contains ''\<newline>- vendor: VARCHAR(100) NULL\<newline>''
         (schema_prompt repr_row_ascii (build_schema healthy_world))
   \<and> \<not> suffix example_question
         (combined_query repr_row_ascii (build_schema healthy_world) example_question)"
proof -
  have 1: "map_of (build_schema healthy_world) (VStr ''purchase_orders'') \<noteq> None"
    by code_simp
  have 2: "\<not> contains ''\<newline>- vendor: VARCHAR(100)\<newline>''
         (schema_prompt repr_row_ascii (build_schema healthy_world))"
    by code_simp
  have 3: "contains ''\<newline>- vendor: VARCHAR(100) NULL\<newline>''
         (schema_prompt repr_row_ascii (build_schema healthy_world))"
    by code_simp
  have "example_question \<noteq> []" and "last example_question \<noteq> CHR 0x0A"
    by (simp_all add: example_question_def)
  then have 4: "\<not> suffix example_question
         (combined_query repr_row_ascii (build_schema healthy_world) example_question)"
    using suffix_last combined_query_last by metis
  from 1 2 3 4 show ?thesis by simp
qed

end
